theory Spec2Isabelle
  imports Complex_Main
begin

section \<open>Run-time values\<close>

text \<open>
  The compiler is written in Python. Every value that the bytecode emitter turns into a
  PUSH satisfies \<^verbatim>\<open>isinstance(x, int)\<close>, which holds for Python ints (unbounded) and
  for Python bools (\<^verbatim>\<open>True\<close>, \<^verbatim>\<open>False\<close>, a subclass of int). These are the values
  that reach the operand stack and the variable dictionary of the virtual machine.
\<close>

datatype "value" = VInt int | VBool bool

text \<open>The integer a Python number stands for in arithmetic and comparisons.\<close>

fun int_of :: "value \<Rightarrow> int" where
  "int_of (VInt n) = n"
| "int_of (VBool b) = (if b then 1 else 0)"

text \<open>Python truthiness of a number: \<^verbatim>\<open>if a\<close>, \<^verbatim>\<open>not a\<close>, \<^verbatim>\<open>a and b\<close>.\<close>

definition truthy :: "value \<Rightarrow> bool" where
  "truthy v = (int_of v \<noteq> 0)"

text \<open>\<^verbatim>\<open>str(n)\<close> for a Python int: the decimal digits, with a leading minus sign.\<close>

definition digit_char :: "int \<Rightarrow> char" where
  "digit_char d = char_of (48 + d)"

function str_digits :: "int \<Rightarrow> string" where
  "str_digits n =
     (if n < 10 then [digit_char n] else str_digits (n div 10) @ [digit_char (n mod 10)])"
  by pat_completeness auto
termination
  by (relation "measure nat") (auto simp: int_div_less_self)

declare str_digits.simps [simp del]

definition str_int :: "int \<Rightarrow> string" where
  "str_int i = (if i < 0 then CHR ''-'' # str_digits (- i) else str_digits i)"

text \<open>\<^verbatim>\<open>str(value)\<close>: a bool prints as \<^verbatim>\<open>True\<close> or \<^verbatim>\<open>False\<close>, an int in decimal.\<close>

fun py_str :: "value \<Rightarrow> string" where
  "py_str (VInt n) = str_int n"
| "py_str (VBool b) = (if b then ''True'' else ''False'')"

text \<open>
  An operand of a three-address instruction (\<^verbatim>\<open>arg1\<close>, \<^verbatim>\<open>arg2\<close>): \<^verbatim>\<open>None\<close>, an
  immediate number, or a name.
\<close>

datatype operand = ONone | OVal "value" | OName string

section \<open>Bytecode and the virtual machine\<close>

text \<open>
  A \<^verbatim>\<open>BytecodeInstruction\<close> is a pair of an opcode and an argument. The emitter gives
  PUSH a number, LOAD an operand of a TAC instruction that is not a number where
  \<^verbatim>\<open>_load_operand\<close> emits it (any operand for COPY), STORE the \<^verbatim>\<open>result\<close> field of a
  TAC instruction (a name or \<^verbatim>\<open>None\<close>), JUMP and JUMP\_IF\_FALSE a label name that
  \<^verbatim>\<open>_resolve_labels\<close> later overwrites with an integer address; the other opcodes
  carry no argument. The constructors below carry exactly these arguments.
\<close>

datatype target = Lbl "string option" | Addr int

datatype BytecodeInstruction =
    B_PUSH "value"
  | B_LOAD operand
  | B_STORE "string option"
  | B_ADD | B_SUB | B_MUL | B_DIV | B_MOD | B_NEG
  | B_LT | B_GT | B_LTE | B_GTE | B_EQ | B_NEQ
  | B_AND | B_OR | B_NOT
  | B_JUMP target
  | B_JUMP_IF_FALSE target
  | B_LABEL
  | B_PRINT
  | B_HALT

datatype py_error = IndexError | TypeError | KeyError

text \<open>
  The state of \<^verbatim>\<open>VirtualMachine\<close>. The operand stack is a Python list used with
  \<^verbatim>\<open>append\<close> and \<^verbatim>\<open>pop\<close>; here its top is the head of the list. The field
  \<^verbatim>\<open>output\<close> (here \<open>vm_output\<close>) collects the printed lines in order.
\<close>

text \<open>
  The keys of \<^verbatim>\<open>variables\<close> are the arguments of STORE: names or \<^verbatim>\<open>None\<close>. A LOAD
  of a number finds no key and yields the default.
\<close>

fun var_key :: "operand \<Rightarrow> string option option" where
  "var_key ONone = Some None"
| "var_key (OName s) = Some (Some s)"
| "var_key (OVal v) = None"

record VirtualMachine =
  stack :: "value list"
  variables :: "string option \<rightharpoonup> value"
  pc :: int
  vm_output :: "string list"

definition vm_init :: VirtualMachine where
  "vm_init = \<lparr>stack = [], variables = Map.empty, pc = 0, vm_output = []\<rparr>"

text \<open>\<^verbatim>\<open>b = pop(); a = pop(); push(f a b)\<close>; popping an empty list raises IndexError.\<close>

fun binop :: "(value \<Rightarrow> value \<Rightarrow> value) \<Rightarrow> VirtualMachine \<Rightarrow> py_error + VirtualMachine" where
  "binop f vm =
     (case stack vm of
        b # a # rest \<Rightarrow> Inr (vm\<lparr>stack := f a b # rest\<rparr>)
      | _ \<Rightarrow> Inl IndexError)"

fun unop :: "(value \<Rightarrow> value) \<Rightarrow> VirtualMachine \<Rightarrow> py_error + VirtualMachine" where
  "unop f vm =
     (case stack vm of
        a # rest \<Rightarrow> Inr (vm\<lparr>stack := f a # rest\<rparr>)
      | _ \<Rightarrow> Inl IndexError)"

definition flag :: "bool \<Rightarrow> value" where
  "flag c = VInt (if c then 1 else 0)"

text \<open>
  Python's \<^verbatim>\<open>//\<close> and \<^verbatim>\<open>%\<close> on ints round the quotient towards minus infinity, as
  \<open>div\<close> and \<open>mod\<close> on \<^typ>\<open>int\<close> do.
\<close>

definition py_floordiv :: "int \<Rightarrow> int \<Rightarrow> int" where
  "py_floordiv a b = a div b"

definition py_mod :: "int \<Rightarrow> int \<Rightarrow> int" where
  "py_mod a b = a mod b"

datatype control = Next | Goto int | Break

text \<open>
  One pass through the body of the dispatch loop of \<^verbatim>\<open>execute\<close>, without the update
  of the program counter: the new machine and whether the loop falls through to
  \<^verbatim>\<open>pc += 1\<close>, assigns \<^verbatim>\<open>pc\<close> and continues, or breaks. A jump whose argument is
  still a label name (or \<^verbatim>\<open>None\<close>) makes \<^verbatim>\<open>pc\<close> a non-number, and the loop test
  \<^verbatim>\<open>self.pc < len(bytecode)\<close> then raises TypeError.
\<close>

fun exec_instr :: "BytecodeInstruction \<Rightarrow> VirtualMachine \<Rightarrow> py_error + (control \<times> VirtualMachine)" where
  "exec_instr (B_PUSH v) vm = Inr (Next, vm\<lparr>stack := v # stack vm\<rparr>)"
| "exec_instr (B_LOAD x) vm =
     Inr (Next, vm\<lparr>stack :=
       (case Option.bind (var_key x) (variables vm) of Some v \<Rightarrow> v | None \<Rightarrow> VInt 0) # stack vm\<rparr>)"
| "exec_instr (B_STORE x) vm =
     (case stack vm of
        v # rest \<Rightarrow> Inr (Next, vm\<lparr>stack := rest, variables := (variables vm)(x \<mapsto> v)\<rparr>)
      | [] \<Rightarrow> Inl IndexError)"
| "exec_instr B_ADD vm = map_sum id (Pair Next) (binop (\<lambda>a b. VInt (int_of a + int_of b)) vm)"
| "exec_instr B_SUB vm = map_sum id (Pair Next) (binop (\<lambda>a b. VInt (int_of a - int_of b)) vm)"
| "exec_instr B_MUL vm = map_sum id (Pair Next) (binop (\<lambda>a b. VInt (int_of a * int_of b)) vm)"
| "exec_instr B_DIV vm =
     map_sum id (Pair Next)
       (binop (\<lambda>a b. VInt (if int_of b \<noteq> 0 then py_floordiv (int_of a) (int_of b) else 0)) vm)"
| "exec_instr B_MOD vm =
     map_sum id (Pair Next)
       (binop (\<lambda>a b. VInt (if int_of b \<noteq> 0 then py_mod (int_of a) (int_of b) else 0)) vm)"
| "exec_instr B_NEG vm = map_sum id (Pair Next) (unop (\<lambda>a. VInt (- int_of a)) vm)"
| "exec_instr B_LT vm = map_sum id (Pair Next) (binop (\<lambda>a b. flag (int_of a < int_of b)) vm)"
| "exec_instr B_GT vm = map_sum id (Pair Next) (binop (\<lambda>a b. flag (int_of a > int_of b)) vm)"
| "exec_instr B_LTE vm = map_sum id (Pair Next) (binop (\<lambda>a b. flag (int_of a \<le> int_of b)) vm)"
| "exec_instr B_GTE vm = map_sum id (Pair Next) (binop (\<lambda>a b. flag (int_of a \<ge> int_of b)) vm)"
| "exec_instr B_EQ vm = map_sum id (Pair Next) (binop (\<lambda>a b. flag (int_of a = int_of b)) vm)"
| "exec_instr B_NEQ vm = map_sum id (Pair Next) (binop (\<lambda>a b. flag (int_of a \<noteq> int_of b)) vm)"
| "exec_instr B_AND vm = map_sum id (Pair Next) (binop (\<lambda>a b. flag (truthy a \<and> truthy b)) vm)"
| "exec_instr B_OR vm = map_sum id (Pair Next) (binop (\<lambda>a b. flag (truthy a \<or> truthy b)) vm)"
| "exec_instr B_NOT vm = map_sum id (Pair Next) (unop (\<lambda>a. VInt (if truthy a then 0 else 1)) vm)"
| "exec_instr B_PRINT vm =
     (case stack vm of
        v # rest \<Rightarrow> Inr (Next, vm\<lparr>stack := rest, vm_output := vm_output vm @ [py_str v]\<rparr>)
      | [] \<Rightarrow> Inl IndexError)"
| "exec_instr (B_JUMP t) vm =
     (case t of Addr n \<Rightarrow> Inr (Goto n, vm) | Lbl _ \<Rightarrow> Inl TypeError)"
| "exec_instr (B_JUMP_IF_FALSE t) vm =
     (case stack vm of
        c # rest \<Rightarrow>
          (if \<not> truthy c
           then (case t of Addr n \<Rightarrow> Inr (Goto n, vm\<lparr>stack := rest\<rparr>) | Lbl _ \<Rightarrow> Inl TypeError)
           else Inr (Next, vm\<lparr>stack := rest\<rparr>))
      | [] \<Rightarrow> Inl IndexError)"
| "exec_instr B_LABEL vm = Inr (Next, vm)"
| "exec_instr B_HALT vm = Inr (Break, vm)"

text \<open>
  \<^verbatim>\<open>bytecode[self.pc]\<close> under the loop test \<^verbatim>\<open>self.pc < len(bytecode)\<close>: a negative
  index counts from the end of the list, and one below \<^verbatim>\<open>-len(bytecode)\<close> raises.
\<close>

definition fetch :: "BytecodeInstruction list \<Rightarrow> int \<Rightarrow> py_error + BytecodeInstruction" where
  "fetch bc i =
     (let n = int (length bc) in
      if 0 \<le> i then Inr (bc ! nat i)
      else if - n \<le> i then Inr (bc ! nat (n + i))
      else Inl IndexError)"

text \<open>
  \<^verbatim>\<open>while self.pc < len(bytecode)\<close>, with a bound on the number of iterations: the loop
  of a compiled \<^verbatim>\<open>while\<close> statement need not end, and \<open>None\<close> is the answer when the
  bound is used up. \<^verbatim>\<open>execute\<close> first sets \<^verbatim>\<open>pc\<close> to 0.
\<close>

fun run :: "nat \<Rightarrow> BytecodeInstruction list \<Rightarrow> VirtualMachine \<Rightarrow> (py_error + VirtualMachine) option" where
  "run 0 bc vm = None"
| "run (Suc k) bc vm =
     (if pc vm < int (length bc) then
        (case fetch bc (pc vm) of
           Inl e \<Rightarrow> Some (Inl e)
         | Inr i \<Rightarrow>
            (case exec_instr i vm of
               Inl e \<Rightarrow> Some (Inl e)
             | Inr (Next, vm') \<Rightarrow> run k bc (vm'\<lparr>pc := pc vm' + 1\<rparr>)
             | Inr (Goto n, vm') \<Rightarrow> run k bc (vm'\<lparr>pc := n\<rparr>)
             | Inr (Break, vm') \<Rightarrow> Some (Inr vm')))
      else Some (Inr vm))"

definition execute :: "nat \<Rightarrow> BytecodeInstruction list \<Rightarrow> VirtualMachine \<Rightarrow> (py_error + VirtualMachine) option" where
  "execute k bc vm = run k bc (vm\<lparr>pc := 0\<rparr>)"

section \<open>Abstract syntax\<close>

text \<open>
  The AST classes of \<^verbatim>\<open>lexer_parser.py\<close>. The operator of a \<^verbatim>\<open>BinaryOp\<close> or
  \<^verbatim>\<open>UnaryOp\<close> is a Python string; the builder methods of \<^verbatim>\<open>ASTBuilder\<close> create
  the thirteen binary operators below, and the grammar has the two unary ones. A declared
  type is the text of a \<^verbatim>\<open>TYPE\<close> token, \<^verbatim>\<open>int\<close> or \<^verbatim>\<open>bool\<close>. A \<^verbatim>\<open>Literal\<close>
  holds a Python int or bool and its \<^verbatim>\<open>lit_type\<close>.
\<close>

datatype ty = TInt | TBool

datatype binary_operator =
    OpAdd | OpSub | OpMul | OpDiv | OpMod
  | OpLt | OpGt | OpLte | OpGte | OpEq | OpNeq
  | OpAnd | OpOr

datatype unary_operator = OpNeg | OpNot

datatype expr =
    BinaryOp binary_operator expr expr
  | UnaryOp unary_operator expr
  | Literal "value" ty
  | Variable string

datatype stmt =
    VarDecl ty string "expr option"
  | Assignment string expr
  | IfStmt expr "stmt list" "stmt list option"
  | WhileStmt expr "stmt list"
  | PrintStmt expr

datatype program = Program "stmt list"

section \<open>Symbol table\<close>

record Symbol =
  name :: string
  var_type :: ty
  scope_level :: nat
  initialized :: bool

record SymbolTable =
  scopes :: "(string \<rightharpoonup> Symbol) list"
  current_scope :: nat

definition symbol_table_init :: SymbolTable where
  "symbol_table_init = \<lparr>scopes = [Map.empty], current_scope = 0\<rparr>"

definition enter_scope :: "SymbolTable \<Rightarrow> SymbolTable" where
  "enter_scope st = st\<lparr>scopes := scopes st @ [Map.empty], current_scope := current_scope st + 1\<rparr>"

text \<open>\<^verbatim>\<open>list.pop()\<close> raises IndexError on an empty list.\<close>

definition exit_scope :: "SymbolTable \<Rightarrow> py_error + SymbolTable" where
  "exit_scope st =
     (if current_scope st > 0 then
        (if scopes st = [] then Inl IndexError
         else Inr (st\<lparr>scopes := butlast (scopes st), current_scope := current_scope st - 1\<rparr>))
      else Inr st)"

text \<open>
  \<^verbatim>\<open>declare\<close> returns False and leaves the table alone when the current scope already
  has the name. \<^verbatim>\<open>self.scopes[self.current_scope]\<close> raises IndexError when the index is
  not below the length of the list.
\<close>

definition declare_symbol :: "SymbolTable \<Rightarrow> string \<Rightarrow> ty \<Rightarrow> py_error + (bool \<times> SymbolTable)" where
  "declare_symbol st n t =
     (if current_scope st < length (scopes st) then
        (case (scopes st ! current_scope st) n of
           Some _ \<Rightarrow> Inr (False, st)
         | None \<Rightarrow>
             Inr (True,
               st\<lparr>scopes := (scopes st)[current_scope st :=
                    (scopes st ! current_scope st)
                      (n \<mapsto> \<lparr>name = n, var_type = t, scope_level = current_scope st,
                              initialized = True\<rparr>)]\<rparr>))
      else Inl IndexError)"

text \<open>\<^verbatim>\<open>for i in range(self.current_scope, -1, -1)\<close>: from the innermost scope outwards.\<close>

fun lookup_from :: "(string \<rightharpoonup> Symbol) list \<Rightarrow> string \<Rightarrow> nat \<Rightarrow> py_error + Symbol option" where
  "lookup_from scs n 0 =
     (if 0 < length scs then Inr ((scs ! 0) n) else Inl IndexError)"
| "lookup_from scs n (Suc i) =
     (if Suc i < length scs then
        (case (scs ! Suc i) n of
           Some s \<Rightarrow> Inr (Some s)
         | None \<Rightarrow> lookup_from scs n i)
      else Inl IndexError)"

definition lookup :: "SymbolTable \<Rightarrow> string \<Rightarrow> py_error + Symbol option" where
  "lookup st n = lookup_from (scopes st) n (current_scope st)"

section \<open>Semantic analyzer\<close>

text \<open>
  The analyzer appends formatted messages to \<^verbatim>\<open>self.errors\<close>. Each message is one
  constructor below, with the values that the format string interpolates.
\<close>

datatype sem_error =
    AlreadyDeclared string
  | TypeMismatch "ty option" ty string
  | Undeclared string
  | IfCondition "ty option"
  | WhileCondition "ty option"
  | ArithmeticOperands binary_operator
  | ComparisonOperands binary_operator
  | SameTypes "ty option" "ty option"
  | LogicalOperands binary_operator
  | UnaryMinusOperand
  | LogicalNotOperand

record SemanticAnalyzer =
  symbol_table :: SymbolTable
  errors :: "sem_error list"

definition analyzer_init :: SemanticAnalyzer where
  "analyzer_init = \<lparr>symbol_table = symbol_table_init, errors = []\<rparr>"

definition error :: "SemanticAnalyzer \<Rightarrow> sem_error \<Rightarrow> SemanticAnalyzer" where
  "error a m = a\<lparr>errors := errors a @ [m]\<rparr>"

definition error_unless :: "bool \<Rightarrow> SemanticAnalyzer \<Rightarrow> sem_error \<Rightarrow> SemanticAnalyzer" where
  "error_unless ok a m = (if ok then a else error a m)"

text \<open>\<^verbatim>\<open>analyze\<close> on an expression node: the type it returns and the analyzer afterwards.\<close>

fun analyze_expr :: "SemanticAnalyzer \<Rightarrow> expr \<Rightarrow> py_error + (ty option \<times> SemanticAnalyzer)" where
  "analyze_expr a (BinaryOp bop l r) =
     (case analyze_expr a l of
        Inl e \<Rightarrow> Inl e
      | Inr (left_type, a1) \<Rightarrow>
         (case analyze_expr a1 r of
            Inl e \<Rightarrow> Inl e
          | Inr (right_type, a2) \<Rightarrow>
             (if bop \<in> {OpAdd, OpSub, OpMul, OpDiv, OpMod} then
                Inr (Some TInt,
                  error_unless (\<not> (left_type \<noteq> Some TInt \<or> right_type \<noteq> Some TInt)) a2
                    (ArithmeticOperands bop))
              else if bop \<in> {OpLt, OpGt, OpLte, OpGte} then
                Inr (Some TBool,
                  error_unless (\<not> (left_type \<noteq> Some TInt \<or> right_type \<noteq> Some TInt)) a2
                    (ComparisonOperands bop))
              else if bop \<in> {OpEq, OpNeq} then
                Inr (Some TBool,
                  error_unless (\<not> (left_type \<noteq> right_type)) a2 (SameTypes left_type right_type))
              else
                Inr (Some TBool,
                  error_unless (\<not> (left_type \<noteq> Some TBool \<or> right_type \<noteq> Some TBool)) a2
                    (LogicalOperands bop)))))"
| "analyze_expr a (UnaryOp uop e) =
     (case analyze_expr a e of
        Inl err \<Rightarrow> Inl err
      | Inr (operand_type, a1) \<Rightarrow>
         (case uop of
            OpNeg \<Rightarrow> Inr (Some TInt, error_unless (\<not> operand_type \<noteq> Some TInt) a1 UnaryMinusOperand)
          | OpNot \<Rightarrow> Inr (Some TBool, error_unless (\<not> operand_type \<noteq> Some TBool) a1 LogicalNotOperand)))"
| "analyze_expr a (Literal v t) = Inr (Some t, a)"
| "analyze_expr a (Variable n) =
     (case lookup (symbol_table a) n of
        Inl e \<Rightarrow> Inl e
      | Inr None \<Rightarrow> Inr (Some TInt, error a (Undeclared n))
      | Inr (Some s) \<Rightarrow> Inr (Some (var_type s), a))"

text \<open>
  \<^verbatim>\<open>analyze\<close> on a statement node and on a list of statements (the \<^verbatim>\<open>for\<close> loops
  over blocks). An \<^verbatim>\<open>else\<close> block is entered when \<^verbatim>\<open>ast_node.else_block\<close> is truthy:
  present and not the empty list.
\<close>

fun analyze_stmt :: "SemanticAnalyzer \<Rightarrow> stmt \<Rightarrow> py_error + SemanticAnalyzer"
  and analyze_stmts :: "SemanticAnalyzer \<Rightarrow> stmt list \<Rightarrow> py_error + SemanticAnalyzer"
  and analyze_block :: "SemanticAnalyzer \<Rightarrow> stmt list \<Rightarrow> py_error + SemanticAnalyzer" where
  "analyze_stmt a (VarDecl t n init) =
     (case declare_symbol (symbol_table a) n t of
        Inl e \<Rightarrow> Inl e
      | Inr (ok, st) \<Rightarrow>
         (let a1 = error_unless ok (a\<lparr>symbol_table := st\<rparr>) (AlreadyDeclared n) in
          case init of
            None \<Rightarrow> Inr a1
          | Some e \<Rightarrow>
             (case analyze_expr a1 e of
                Inl err \<Rightarrow> Inl err
              | Inr (value_type, a2) \<Rightarrow>
                  Inr (error_unless (\<not> value_type \<noteq> Some t) a2 (TypeMismatch value_type t n)))))"
| "analyze_stmt a (Assignment n e) =
     (case lookup (symbol_table a) n of
        Inl err \<Rightarrow> Inl err
      | Inr None \<Rightarrow> Inr (error a (Undeclared n))
      | Inr (Some s) \<Rightarrow>
         (case analyze_expr a e of
            Inl err \<Rightarrow> Inl err
          | Inr (value_type, a1) \<Rightarrow>
              Inr (error_unless (\<not> value_type \<noteq> Some (var_type s)) a1
                     (TypeMismatch value_type (var_type s) n))))"
| "analyze_stmt a (IfStmt c then_block else_block) =
     (case analyze_expr a c of
        Inl err \<Rightarrow> Inl err
      | Inr (cond_type, a1) \<Rightarrow>
         (case analyze_block (error_unless (\<not> cond_type \<noteq> Some TBool) a1 (IfCondition cond_type))
                 then_block of
            Inl err \<Rightarrow> Inl err
          | Inr a2 \<Rightarrow>
             (case else_block of
                None \<Rightarrow> Inr a2
              | Some b \<Rightarrow> (if b = [] then Inr a2 else analyze_block a2 b))))"
| "analyze_stmt a (WhileStmt c body) =
     (case analyze_expr a c of
        Inl err \<Rightarrow> Inl err
      | Inr (cond_type, a1) \<Rightarrow>
          analyze_block (error_unless (\<not> cond_type \<noteq> Some TBool) a1 (WhileCondition cond_type)) body)"
| "analyze_stmt a (PrintStmt e) =
     (case analyze_expr a e of Inl err \<Rightarrow> Inl err | Inr (_, a1) \<Rightarrow> Inr a1)"
| "analyze_stmts a [] = Inr a"
| "analyze_stmts a (s # ss) =
     (case analyze_stmt a s of Inl err \<Rightarrow> Inl err | Inr a1 \<Rightarrow> analyze_stmts a1 ss)"
| "analyze_block a ss =
     (case analyze_stmts (a\<lparr>symbol_table := enter_scope (symbol_table a)\<rparr>) ss of
        Inl err \<Rightarrow> Inl err
      | Inr a1 \<Rightarrow>
         (case exit_scope (symbol_table a1) of
            Inl err \<Rightarrow> Inl err
          | Inr st \<Rightarrow> Inr (a1\<lparr>symbol_table := st\<rparr>)))"

fun analyze :: "SemanticAnalyzer \<Rightarrow> program \<Rightarrow> py_error + SemanticAnalyzer" where
  "analyze a (Program statements) = analyze_stmts a statements"

section \<open>Three-address code and its generator\<close>

datatype TACOp =
    T_ADD | T_SUB | T_MUL | T_DIV | T_MOD | T_NEG
  | T_LT | T_GT | T_LTE | T_GTE | T_EQ | T_NEQ
  | T_AND | T_OR | T_NOT
  | T_ASSIGN | T_COPY
  | T_LABEL | T_GOTO | T_IF_FALSE | T_IF_TRUE
  | T_PRINT

record TACInstruction =
  op :: TACOp
  arg1 :: operand
  arg2 :: operand
  result :: "string option"

definition TAC :: "TACOp \<Rightarrow> operand \<Rightarrow> operand \<Rightarrow> string option \<Rightarrow> TACInstruction" where
  "TAC o1 a1 a2 r = \<lparr>op = o1, arg1 = a1, arg2 = a2, result = r\<rparr>"

record TACGenerator =
  instructions :: "TACInstruction list"
  temp_counter :: nat
  label_counter :: nat

definition generator_init :: TACGenerator where
  "generator_init = \<lparr>instructions = [], temp_counter = 0, label_counter = 0\<rparr>"

definition new_temp :: "TACGenerator \<Rightarrow> string \<times> TACGenerator" where
  "new_temp g = (''t'' @ str_int (int (temp_counter g)), g\<lparr>temp_counter := temp_counter g + 1\<rparr>)"

definition new_label :: "TACGenerator \<Rightarrow> string \<times> TACGenerator" where
  "new_label g = (''L'' @ str_int (int (label_counter g)), g\<lparr>label_counter := label_counter g + 1\<rparr>)"

definition emit :: "TACGenerator \<Rightarrow> TACOp \<Rightarrow> operand \<Rightarrow> operand \<Rightarrow> string option \<Rightarrow> TACGenerator" where
  "emit g o1 a1 a2 r = g\<lparr>instructions := instructions g @ [TAC o1 a1 a2 r]\<rparr>"

text \<open>The dictionary \<^verbatim>\<open>op_map\<close> of the \<^verbatim>\<open>BinaryOp\<close> and \<^verbatim>\<open>UnaryOp\<close> cases.\<close>

fun op_map :: "binary_operator \<Rightarrow> TACOp" where
  "op_map OpAdd = T_ADD" | "op_map OpSub = T_SUB" | "op_map OpMul = T_MUL"
| "op_map OpDiv = T_DIV" | "op_map OpMod = T_MOD"
| "op_map OpLt = T_LT" | "op_map OpGt = T_GT"
| "op_map OpLte = T_LTE" | "op_map OpGte = T_GTE"
| "op_map OpEq = T_EQ" | "op_map OpNeq = T_NEQ"
| "op_map OpAnd = T_AND" | "op_map OpOr = T_OR"

fun unary_op_map :: "unary_operator \<Rightarrow> TACOp" where
  "unary_op_map OpNeg = T_NEG" | "unary_op_map OpNot = T_NOT"

text \<open>\<^verbatim>\<open>generate\<close> on an expression node returns the name that holds its value.\<close>

fun generate_expr :: "TACGenerator \<Rightarrow> expr \<Rightarrow> string \<times> TACGenerator" where
  "generate_expr g (BinaryOp bop l r) =
     (let (left_temp, g1) = generate_expr g l;
          (right_temp, g2) = generate_expr g1 r;
          (result_temp, g3) = new_temp g2
      in (result_temp, emit g3 (op_map bop) (OName left_temp) (OName right_temp) (Some result_temp)))"
| "generate_expr g (UnaryOp uop e) =
     (let (operand_temp, g1) = generate_expr g e;
          (result_temp, g2) = new_temp g1
      in (result_temp, emit g2 (unary_op_map uop) (OName operand_temp) ONone (Some result_temp)))"
| "generate_expr g (Literal v t) =
     (let (temp, g1) = new_temp g
      in (temp, emit g1 T_ASSIGN (OVal v) ONone (Some temp)))"
| "generate_expr g (Variable n) = (n, g)"

fun generate_stmt :: "TACGenerator \<Rightarrow> stmt \<Rightarrow> TACGenerator"
  and generate_stmts :: "TACGenerator \<Rightarrow> stmt list \<Rightarrow> TACGenerator" where
  "generate_stmt g (VarDecl t n init) =
     (case init of
        None \<Rightarrow> g
      | Some e \<Rightarrow>
          (let (value_temp, g1) = generate_expr g e
           in emit g1 T_ASSIGN (OName value_temp) ONone (Some n)))"
| "generate_stmt g (Assignment n e) =
     (let (value_temp, g1) = generate_expr g e
      in emit g1 T_ASSIGN (OName value_temp) ONone (Some n))"
| "generate_stmt g (IfStmt c then_block else_block) =
     (let (cond_temp, g1) = generate_expr g c;
          (else_label, g2) = new_label g1;
          (end_label, g3) = new_label g2;
          g4 = emit g3 T_IF_FALSE (OName cond_temp) ONone (Some else_label);
          g5 = generate_stmts g4 then_block;
          g6 = emit g5 T_GOTO ONone ONone (Some end_label);
          g7 = emit g6 T_LABEL ONone ONone (Some else_label);
          g8 = (case else_block of
                  None \<Rightarrow> g7
                | Some b \<Rightarrow> (if b = [] then g7 else generate_stmts g7 b))
      in emit g8 T_LABEL ONone ONone (Some end_label))"
| "generate_stmt g (WhileStmt c body) =
     (let (start_label, g1) = new_label g;
          (end_label, g2) = new_label g1;
          g3 = emit g2 T_LABEL ONone ONone (Some start_label);
          (cond_temp, g4) = generate_expr g3 c;
          g5 = emit g4 T_IF_FALSE (OName cond_temp) ONone (Some end_label);
          g6 = generate_stmts g5 body;
          g7 = emit g6 T_GOTO ONone ONone (Some start_label)
      in emit g7 T_LABEL ONone ONone (Some end_label))"
| "generate_stmt g (PrintStmt e) =
     (let (expr_temp, g1) = generate_expr g e
      in emit g1 T_PRINT (OName expr_temp) ONone None)"
| "generate_stmts g [] = g"
| "generate_stmts g (s # ss) = generate_stmts (generate_stmt g s) ss"

fun generate :: "TACGenerator \<Rightarrow> program \<Rightarrow> TACGenerator" where
  "generate g (Program statements) = generate_stmts g statements"

section \<open>Optimizer\<close>

subsection \<open>Constant folding\<close>

text \<open>
  The dictionary \<^verbatim>\<open>constants\<close> is keyed by \<^verbatim>\<open>result\<close> fields (names or
  \<^verbatim>\<open>None\<close>). \<^verbatim>\<open>constants.get(a, a)\<close> on an operand: an immediate number is never a
  key, so it comes back as it is.
\<close>

type_synonym constants = "string option \<rightharpoonup> value"

fun const_get :: "constants \<Rightarrow> operand \<Rightarrow> operand" where
  "const_get c (OVal v) = OVal v"
| "const_get c ONone = (case c None of Some v \<Rightarrow> OVal v | None \<Rightarrow> ONone)"
| "const_get c (OName s) = (case c (Some s) of Some v \<Rightarrow> OVal v | None \<Rightarrow> OName s)"

definition is_arith :: "TACOp \<Rightarrow> bool" where
  "is_arith o1 = (o1 \<in> {T_ADD, T_SUB, T_MUL, T_DIV, T_MOD})"

text \<open>The value that folding computes, on Python's unbounded ints.\<close>

definition fold_value :: "TACOp \<Rightarrow> value \<Rightarrow> value \<Rightarrow> value" where
  "fold_value o1 val1 val2 =
     VInt (if o1 = T_ADD then int_of val1 + int_of val2
           else if o1 = T_SUB then int_of val1 - int_of val2
           else if o1 = T_MUL then int_of val1 * int_of val2
           else if o1 = T_DIV then
             (if int_of val2 \<noteq> 0 then py_floordiv (int_of val1) (int_of val2) else 0)
           else (if int_of val2 \<noteq> 0 then py_mod (int_of val1) (int_of val2) else 0))"

text \<open>
  One iteration of the loop of \<^verbatim>\<open>constant_folding\<close>: the instruction appended to
  \<^verbatim>\<open>optimized\<close> and the dictionary afterwards.
\<close>

definition fold_step :: "constants \<Rightarrow> TACInstruction \<Rightarrow> TACInstruction \<times> constants" where
  "fold_step c instr =
     (case (op instr, arg1 instr) of
        (T_ASSIGN, OVal v) \<Rightarrow> (instr, c(result instr \<mapsto> v))
      | _ \<Rightarrow>
        (if is_arith (op instr) then
           (case (const_get c (arg1 instr), const_get c (arg2 instr)) of
              (OVal val1, OVal val2) \<Rightarrow>
                (let r = fold_value (op instr) val1 val2
                 in (TAC T_ASSIGN (OVal r) ONone (result instr), c(result instr \<mapsto> r)))
            | _ \<Rightarrow> (instr, c))
         else (instr, c)))"

fun fold_loop :: "constants \<Rightarrow> TACInstruction list \<Rightarrow> TACInstruction list \<times> constants" where
  "fold_loop c [] = ([], c)"
| "fold_loop c (instr # rest) =
     (let (i', c') = fold_step c instr;
          (rest', c'') = fold_loop c' rest
      in (i' # rest', c''))"

definition constant_folding :: "TACInstruction list \<Rightarrow> TACInstruction list" where
  "constant_folding instrs = fst (fold_loop Map.empty instrs)"

text \<open>The dictionary \<^verbatim>\<open>constants\<close> when the loop of \<^verbatim>\<open>constant_folding\<close> ends.\<close>

definition folding_constants :: "TACInstruction list \<Rightarrow> constants" where
  "folding_constants instrs = snd (fold_loop Map.empty instrs)"

subsection \<open>Dead-code elimination\<close>

text \<open>\<^verbatim>\<open>if a and isinstance(a, str)\<close>: a string that is not empty.\<close>

fun used_name :: "operand \<Rightarrow> string list" where
  "used_name (OName s) = (if s \<noteq> [] then [s] else [])"
| "used_name _ = []"

definition used_vars :: "TACInstruction list \<Rightarrow> string set" where
  "used_vars instrs = set (concat (map (\<lambda>i. used_name (arg1 i) @ used_name (arg2 i)) instrs))"

text \<open>\<^verbatim>\<open>r and r.startswith('t')\<close> on a \<^verbatim>\<open>result\<close> field.\<close>

fun startswith_t :: "string option \<Rightarrow> bool" where
  "startswith_t None = False"
| "startswith_t (Some r) = (case r of [] \<Rightarrow> False | c # _ \<Rightarrow> c = CHR ''t'')"

text \<open>The test of the second loop: whether the instruction is appended to \<^verbatim>\<open>optimized\<close>.\<close>

definition dce_keeps :: "string set \<Rightarrow> TACInstruction \<Rightarrow> bool" where
  "dce_keeps used instr =
     (if op instr = T_ASSIGN \<and> startswith_t (result instr)
      then (case result instr of Some r \<Rightarrow> r \<in> used | None \<Rightarrow> True)
      else True)"

definition dead_code_elimination :: "TACInstruction list \<Rightarrow> TACInstruction list" where
  "dead_code_elimination instrs = filter (dce_keeps (used_vars instrs)) instrs"

subsection \<open>Algebraic simplification\<close>

text \<open>\<^verbatim>\<open>a == n\<close> for an operand and an int: true for a number of that value.\<close>

fun eq_int :: "operand \<Rightarrow> int \<Rightarrow> bool" where
  "eq_int (OVal v) n = (int_of v = n)"
| "eq_int _ n = False"

definition simplify_instr :: "TACInstruction \<Rightarrow> TACInstruction" where
  "simplify_instr instr =
     (if op instr = T_ADD then
        (if eq_int (arg2 instr) 0 then TAC T_COPY (arg1 instr) ONone (result instr)
         else if eq_int (arg1 instr) 0 then TAC T_COPY (arg2 instr) ONone (result instr)
         else instr)
      else if op instr = T_MUL then
        (if eq_int (arg2 instr) 1 then TAC T_COPY (arg1 instr) ONone (result instr)
         else if eq_int (arg1 instr) 1 then TAC T_COPY (arg2 instr) ONone (result instr)
         else if eq_int (arg2 instr) 0 \<or> eq_int (arg1 instr) 0
           then TAC T_ASSIGN (OVal (VInt 0)) ONone (result instr)
         else instr)
      else instr)"

definition algebraic_simplification :: "TACInstruction list \<Rightarrow> TACInstruction list" where
  "algebraic_simplification instrs = map simplify_instr instrs"

definition optimize :: "TACInstruction list \<Rightarrow> TACInstruction list" where
  "optimize instrs = algebraic_simplification (dead_code_elimination (constant_folding instrs))"

section \<open>Bytecode generator\<close>

record BytecodeGenerator =
  bytecode :: "BytecodeInstruction list"
  labels :: "string option \<rightharpoonup> nat"

definition bytecode_generator_init :: BytecodeGenerator where
  "bytecode_generator_init = \<lparr>bytecode = [], labels = Map.empty\<rparr>"

fun load_operand :: "operand \<Rightarrow> BytecodeInstruction" where
  "load_operand (OVal v) = B_PUSH v"
| "load_operand a = B_LOAD a"

text \<open>The instructions that \<^verbatim>\<open>_generate_instruction\<close> appends for one TAC instruction.\<close>

definition generate_instruction :: "TACInstruction \<Rightarrow> BytecodeInstruction list" where
  "generate_instruction instr =
     (let o1 = op instr in
      if o1 = T_ASSIGN then [load_operand (arg1 instr), B_STORE (result instr)]
      else if o1 = T_COPY then [B_LOAD (arg1 instr), B_STORE (result instr)]
      else if o1 \<in> {T_ADD, T_SUB, T_MUL, T_DIV, T_MOD} then
        [load_operand (arg1 instr), load_operand (arg2 instr),
         (if o1 = T_ADD then B_ADD else if o1 = T_SUB then B_SUB else if o1 = T_MUL then B_MUL
          else if o1 = T_DIV then B_DIV else B_MOD),
         B_STORE (result instr)]
      else if o1 \<in> {T_LT, T_GT, T_LTE, T_GTE, T_EQ, T_NEQ} then
        [load_operand (arg1 instr), load_operand (arg2 instr),
         (if o1 = T_LT then B_LT else if o1 = T_GT then B_GT else if o1 = T_LTE then B_LTE
          else if o1 = T_GTE then B_GTE else if o1 = T_EQ then B_EQ else B_NEQ),
         B_STORE (result instr)]
      else if o1 \<in> {T_AND, T_OR} then
        [load_operand (arg1 instr), load_operand (arg2 instr),
         (if o1 = T_AND then B_AND else B_OR),
         B_STORE (result instr)]
      else if o1 \<in> {T_NEG, T_NOT} then
        [load_operand (arg1 instr), (if o1 = T_NEG then B_NEG else B_NOT), B_STORE (result instr)]
      else if o1 = T_PRINT then [load_operand (arg1 instr), B_PRINT]
      else if o1 = T_GOTO then [B_JUMP (Lbl (result instr))]
      else if o1 = T_IF_FALSE then [load_operand (arg1 instr), B_JUMP_IF_FALSE (Lbl (result instr))]
      else [])"

text \<open>The first pass of \<^verbatim>\<open>BytecodeGenerator.generate\<close>.\<close>

fun first_pass :: "BytecodeGenerator \<Rightarrow> TACInstruction list \<Rightarrow> BytecodeGenerator" where
  "first_pass b [] = b"
| "first_pass b (instr # rest) =
     first_pass
       (if op instr = T_LABEL
        then b\<lparr>labels := (labels b)(result instr \<mapsto> length (bytecode b))\<rparr>
        else b\<lparr>bytecode := bytecode b @ generate_instruction instr\<rparr>)
       rest"

text \<open>
  \<^verbatim>\<open>_resolve_labels\<close>: a jump whose argument is a string that is a key of
  \<^verbatim>\<open>labels\<close> gets the address; any other argument stays.
\<close>

fun resolve_target :: "(string option \<rightharpoonup> nat) \<Rightarrow> target \<Rightarrow> target" where
  "resolve_target ls (Lbl (Some s)) = (case ls (Some s) of Some n \<Rightarrow> Addr (int n) | None \<Rightarrow> Lbl (Some s))"
| "resolve_target ls t = t"

fun resolve_instr :: "(string option \<rightharpoonup> nat) \<Rightarrow> BytecodeInstruction \<Rightarrow> BytecodeInstruction" where
  "resolve_instr ls (B_JUMP t) = B_JUMP (resolve_target ls t)"
| "resolve_instr ls (B_JUMP_IF_FALSE t) = B_JUMP_IF_FALSE (resolve_target ls t)"
| "resolve_instr ls i = i"

definition resolve_labels :: "BytecodeGenerator \<Rightarrow> BytecodeGenerator" where
  "resolve_labels b = b\<lparr>bytecode := map (resolve_instr (labels b)) (bytecode b)\<rparr>"

definition bytecode_generate :: "TACInstruction list \<Rightarrow> BytecodeInstruction list" where
  "bytecode_generate tac =
     (let b1 = first_pass bytecode_generator_init tac;
          b2 = b1\<lparr>bytecode := bytecode b1 @ [B_HALT]\<rparr>
      in bytecode (resolve_labels b2))"

section \<open>The pipeline\<close>

text \<open>
  \<^verbatim>\<open>compile_and_run\<close> analyzes the program and stops when the analyzer has recorded an
  error; otherwise it generates TAC, optimizes it, emits bytecode and runs the machine. The
  variant without the optimizer is the same pipeline with that call left out.
\<close>

definition well_typed :: "program \<Rightarrow> bool" where
  "well_typed p = (case analyze analyzer_init p of Inr a \<Rightarrow> errors a = [] | Inl _ \<Rightarrow> False)"

definition tac_of :: "program \<Rightarrow> TACInstruction list" where
  "tac_of p = instructions (generate generator_init p)"

definition run_optimized :: "nat \<Rightarrow> program \<Rightarrow> (py_error + VirtualMachine) option" where
  "run_optimized k p = execute k (bytecode_generate (optimize (tac_of p))) vm_init"

definition run_unoptimized :: "nat \<Rightarrow> program \<Rightarrow> (py_error + VirtualMachine) option" where
  "run_unoptimized k p = execute k (bytecode_generate (tac_of p)) vm_init"

text \<open>The lines printed by a run, when it ends within the bound.\<close>

definition printed :: "(py_error + VirtualMachine) option \<Rightarrow> (py_error + string list) option" where
  "printed r = map_option (map_sum id vm_output) r"

section \<open>Predicates on generated code\<close>

text \<open>
  A jump target is resolved for a bytecode vector of length \<open>n\<close> when it is an integer
  address in \<open>[0, n)\<close>; a target that is still a label name is not.
\<close>

fun resolved_in :: "nat \<Rightarrow> target \<Rightarrow> bool" where
  "resolved_in n (Addr a) = (0 \<le> a \<and> a < int n)"
| "resolved_in n (Lbl l) = False"

fun jump_ok :: "nat \<Rightarrow> BytecodeInstruction \<Rightarrow> bool" where
  "jump_ok n (B_JUMP t) = resolved_in n t"
| "jump_ok n (B_JUMP_IF_FALSE t) = resolved_in n t"
| "jump_ok n i = True"

text \<open>The argument of a JUMP or JUMP\_IF\_FALSE instruction.\<close>

fun jump_target :: "BytecodeInstruction \<Rightarrow> target option" where
  "jump_target (B_JUMP t) = Some t"
| "jump_target (B_JUMP_IF_FALSE t) = Some t"
| "jump_target i = None"

text \<open>
  Every GOTO and IF\_FALSE of a TAC list names a label that a LABEL instruction of the list
  defines; a list is straight when it has no GOTO, IF\_FALSE or LABEL.
\<close>

definition labels_closed :: "TACInstruction list \<Rightarrow> bool" where
  "labels_closed l =
     (\<forall>i\<in>set l. op i \<in> {T_GOTO, T_IF_FALSE} \<longrightarrow>
        (\<exists>s. result i = Some s \<and> (\<exists>j\<in>set l. op j = T_LABEL \<and> result j = Some s)))"

definition straight :: "TACInstruction list \<Rightarrow> bool" where
  "straight l = (\<forall>i\<in>set l. op i \<notin> {T_GOTO, T_IF_FALSE, T_LABEL})"

text \<open>One iteration of the loop of the first pass.\<close>

definition first_pass_step :: "BytecodeGenerator \<Rightarrow> TACInstruction \<Rightarrow> BytecodeGenerator" where
  "first_pass_step b instr =
     (if op instr = T_LABEL
      then b\<lparr>labels := (labels b)(result instr \<mapsto> length (bytecode b))\<rparr>
      else b\<lparr>bytecode := bytecode b @ generate_instruction instr\<rparr>)"

text \<open>The kinds of operand.\<close>

fun is_imm :: "operand \<Rightarrow> bool" where
  "is_imm (OVal v) = True"
| "is_imm a = False"

fun is_name :: "operand \<Rightarrow> bool" where
  "is_name (OName s) = True"
| "is_name a = False"

text \<open>A name that \<^verbatim>\<open>new_temp\<close> can return: the letter t and a counter value.\<close>

definition is_temp_name :: "string option \<Rightarrow> bool" where
  "is_temp_name r = (\<exists>k::nat. r = Some (''t'' @ str_int (int k)))"

text \<open>
  The names that a statement assigns: those of its declarations with an initializer and of
  its assignments, in nested blocks too.
\<close>

fun assigned_names :: "stmt \<Rightarrow> string list" where
  "assigned_names (VarDecl t n init) = (case init of None \<Rightarrow> [] | Some e \<Rightarrow> [n])"
| "assigned_names (Assignment n e) = [n]"
| "assigned_names (IfStmt c then_block else_block) =
     concat (map assigned_names then_block) @
     (case else_block of None \<Rightarrow> [] | Some b \<Rightarrow> concat (map assigned_names b))"
| "assigned_names (WhileStmt c body) = concat (map assigned_names body)"
| "assigned_names (PrintStmt e) = []"

fun program_assigned_names :: "program \<Rightarrow> string list" where
  "program_assigned_names (Program ss) = concat (map assigned_names ss)"

text \<open>
  The shape of the instructions that \<^verbatim>\<open>TACGenerator\<close> emits, for a set \<open>U\<close> of
  assigned names: an immediate is only ever assigned to a fresh temporary, a name is only
  ever copied into an assigned variable, the operands of every operator are names and its
  result is a fresh temporary, and COPY and IF\_TRUE do not occur.
\<close>

definition generated_form :: "string set \<Rightarrow> TACInstruction \<Rightarrow> bool" where
  "generated_form U i =
     ((op i = T_ASSIGN \<longrightarrow>
         arg2 i = ONone \<and>
         ((is_imm (arg1 i) \<and> is_temp_name (result i)) \<or>
          (is_name (arg1 i) \<and> (\<exists>n\<in>U. result i = Some n)))) \<and>
      (op i \<in> {T_ADD, T_SUB, T_MUL, T_DIV, T_MOD, T_LT, T_GT, T_LTE, T_GTE, T_EQ, T_NEQ, T_AND, T_OR} \<longrightarrow>
         is_name (arg1 i) \<and> is_name (arg2 i) \<and> is_temp_name (result i)) \<and>
      (op i \<in> {T_NEG, T_NOT} \<longrightarrow> is_name (arg1 i) \<and> is_temp_name (result i)) \<and>
      op i \<noteq> T_COPY \<and> op i \<noteq> T_IF_TRUE)"

definition all_generated :: "string set \<Rightarrow> TACGenerator \<Rightarrow> bool" where
  "all_generated U g = (\<forall>i\<in>set (instructions g). generated_form U i)"

text \<open>
  Two conditions on a TAC instruction. No ADD or MUL has an immediate operand (so algebraic
  simplification has nothing to rewrite), and an ASSIGN whose result begins with t reads no
  name (so removing it does not change the set of used names).
\<close>

definition no_immediate_operands :: "TACInstruction \<Rightarrow> bool" where
  "no_immediate_operands i =
     (op i \<in> {T_ADD, T_MUL} \<longrightarrow> \<not> is_imm (arg1 i) \<and> \<not> is_imm (arg2 i))"

definition temp_assign_reads_nothing :: "TACInstruction \<Rightarrow> bool" where
  "temp_assign_reads_nothing i =
     (op i = T_ASSIGN \<and> startswith_t (result i) \<longrightarrow>
        used_name (arg1 i) = [] \<and> used_name (arg2 i) = [])"

definition stable_form :: "TACInstruction list \<Rightarrow> bool" where
  "stable_form l = list_all (\<lambda>i. no_immediate_operands i \<and> temp_assign_reads_nothing i) l"

text \<open>
  For a set \<open>U\<close> of used names: the dictionary keys whose assignments dead-code
  elimination never removes, and the instructions that look up only such keys.
\<close>

definition kept_key :: "string set \<Rightarrow> string option \<Rightarrow> bool" where
  "kept_key U k = (\<not> startswith_t k \<or> (\<exists>s\<in>U. k = Some s))"

definition args_in :: "string set \<Rightarrow> TACInstruction \<Rightarrow> bool" where
  "args_in U i =
     (\<forall>k. var_key (arg1 i) = Some k \<or> var_key (arg2 i) = Some k \<longrightarrow> kept_key U k)"

text \<open>Instructions that dead-code elimination and constant folding leave alone.\<close>

definition is_control :: "TACInstruction \<Rightarrow> bool" where
  "is_control i = (op i \<in> {T_GOTO, T_IF_FALSE, T_LABEL})"

text \<open>
  The scope list and the index of the current scope move together: \<^verbatim>\<open>__init__\<close>
  starts with one scope and index 0, \<^verbatim>\<open>enter_scope\<close> appends a scope and adds one,
  \<^verbatim>\<open>exit_scope\<close> pops a scope and subtracts one. A later table extends an earlier
  one when it has the same current scope index and still holds every binding that the
  earlier one had at that index or below.
\<close>

definition table_ok :: "SymbolTable \<Rightarrow> bool" where
  "table_ok st = (length (scopes st) = Suc (current_scope st))"

definition table_extends :: "SymbolTable \<Rightarrow> SymbolTable \<Rightarrow> bool" where
  "table_extends st st' =
     (table_ok st' \<and> current_scope st' = current_scope st \<and>
      (\<forall>i\<le>current_scope st. \<forall>n s. (scopes st ! i) n = Some s \<longrightarrow> (scopes st' ! i) n = Some s))"

section \<open>Example programs\<close>

text \<open>
  \<^verbatim>\<open>int a = 7; int t0 = a + a; print(t0 + 1);\<close> The user variable \<^verbatim>\<open>t0\<close> has the name
  that the generator gives its first temporary.
\<close>

definition clash_program :: program where
  "clash_program = Program
     [VarDecl TInt ''a'' (Some (Literal (VInt 7) TInt)),
      VarDecl TInt ''t0'' (Some (BinaryOp OpAdd (Variable ''a'') (Variable ''a''))),
      PrintStmt (BinaryOp OpAdd (Variable ''t0'') (Literal (VInt 1) TInt))]"

text \<open>\<^verbatim>\<open>print(true);\<close>\<close>

definition print_true_program :: program where
  "print_true_program = Program [PrintStmt (Literal (VBool True) TBool)]"

text \<open>\<^verbatim>\<open>print(1 + 2147483647);\<close>\<close>

definition int_max_program :: program where
  "int_max_program = Program
     [PrintStmt (BinaryOp OpAdd (Literal (VInt 1) TInt) (Literal (VInt 2147483647) TInt))]"

text \<open>\<^verbatim>\<open>int total = 5;\<close>\<close>

definition total_program :: program where
  "total_program = Program [VarDecl TInt ''total'' (Some (Literal (VInt 5) TInt))]"


text \<open>\<^verbatim>\<open>int x = 1 + 2;\<close>\<close>

definition sum_program :: program where
  "sum_program = Program
     [VarDecl TInt ''x'' (Some (BinaryOp OpAdd (Literal (VInt 1) TInt) (Literal (VInt 2) TInt)))]"

text \<open>\<^verbatim>\<open>if (true) { }\<close>\<close>

definition if_program :: program where
  "if_program = Program [IfStmt (Literal (VBool True) TBool) [] None]"

section \<open>Virtual machine: arithmetic and printing\<close>

text \<open>
  Claim C3 says that the machine's integer arithmetic wraps at 32 bits, so that
  \<open>1 + 2147483647\<close> is \<open>-2147483648\<close>. The machine adds Python ints, which do not wrap:
  the well-typed program \<^verbatim>\<open>print(1 + 2147483647);\<close> prints \<open>2147483648\<close>, with and
  without the optimizer, and the ADD instruction on these operands does not leave
  \<open>-2147483648\<close> on the stack.
\<close>

theorem add_int_max_does_not_wrap:
  "well_typed int_max_program \<and>
   printed (run_unoptimized 30 int_max_program) = Some (Inr [''2147483648'']) \<and>
   printed (run_optimized 30 int_max_program) = Some (Inr [''2147483648'']) \<and>
   exec_instr B_ADD (vm_init\<lparr>stack := [VInt 2147483647, VInt 1]\<rparr>)
     \<noteq> Inr (Next, vm_init\<lparr>stack := [VInt (- 2147483648)]\<rparr>)"
  apply (intro conjI)
     apply code_simp
    apply code_simp
   apply code_simp
  apply (simp add: vm_init_def)
  done

text \<open>
  Claim C3, amended: ADD, SUB and MUL on two ints \<open>a\<close> (second from the top) and \<open>b\<close>
  (top) push the exact sum, difference and product as unbounded integers; nothing wraps.
\<close>

theorem vm_arithmetic_is_unbounded:
  "exec_instr B_ADD (vm\<lparr>stack := VInt b # VInt a # rest\<rparr>)
     = Inr (Next, vm\<lparr>stack := VInt (a + b) # rest\<rparr>) \<and>
   exec_instr B_SUB (vm\<lparr>stack := VInt b # VInt a # rest\<rparr>)
     = Inr (Next, vm\<lparr>stack := VInt (a - b) # rest\<rparr>) \<and>
   exec_instr B_MUL (vm\<lparr>stack := VInt b # VInt a # rest\<rparr>)
     = Inr (Next, vm\<lparr>stack := VInt (a * b) # rest\<rparr>)"
  by simp

text \<open>
  Claim C6: with ints \<open>a\<close> (second from the top) and \<open>b\<close> (top) on the stack, DIV and MOD
  push 0 when \<open>b = 0\<close>; otherwise DIV pushes the floor of the quotient \<open>a / b\<close> and MOD the
  remainder that goes with it, which is zero or has the sign of the divisor. Both return a
  machine, never an error.
\<close>

theorem div_mod_floored:
  "exec_instr B_DIV (vm\<lparr>stack := VInt 0 # VInt a # rest\<rparr>)
     = Inr (Next, vm\<lparr>stack := VInt 0 # rest\<rparr>) \<and>
   exec_instr B_MOD (vm\<lparr>stack := VInt 0 # VInt a # rest\<rparr>)
     = Inr (Next, vm\<lparr>stack := VInt 0 # rest\<rparr>) \<and>
   (b \<noteq> 0 \<longrightarrow>
      exec_instr B_DIV (vm\<lparr>stack := VInt b # VInt a # rest\<rparr>)
        = Inr (Next, vm\<lparr>stack := VInt \<lfloor>real_of_int a / real_of_int b\<rfloor> # rest\<rparr>) \<and>
      exec_instr B_MOD (vm\<lparr>stack := VInt b # VInt a # rest\<rparr>)
        = Inr (Next, vm\<lparr>stack := VInt (a - b * \<lfloor>real_of_int a / real_of_int b\<rfloor>) # rest\<rparr>) \<and>
      (0 < b \<longrightarrow> 0 \<le> a - b * \<lfloor>real_of_int a / real_of_int b\<rfloor>
                 \<and> a - b * \<lfloor>real_of_int a / real_of_int b\<rfloor> < b) \<and>
      (b < 0 \<longrightarrow> b < a - b * \<lfloor>real_of_int a / real_of_int b\<rfloor>
                 \<and> a - b * \<lfloor>real_of_int a / real_of_int b\<rfloor> \<le> 0))"
proof -
  have fl: "\<lfloor>real_of_int a / real_of_int b\<rfloor> = a div b"
    by (simp add: floor_divide_of_int_eq)
  have md: "a - b * (a div b) = a mod b"
    by (simp add: minus_mult_div_eq_mod)
  show ?thesis
    unfolding fl md by (simp add: py_floordiv_def py_mod_def)
qed

theorem div_mod_floored_witness:
  "exec_instr B_DIV (vm_init\<lparr>stack := [VInt 2, VInt (- 7)]\<rparr>)
     = Inr (Next, vm_init\<lparr>stack := [VInt (- 4)]\<rparr>) \<and>
   exec_instr B_MOD (vm_init\<lparr>stack := [VInt 2, VInt (- 7)]\<rparr>)
     = Inr (Next, vm_init\<lparr>stack := [VInt 1]\<rparr>) \<and>
   exec_instr B_DIV (vm_init\<lparr>stack := [VInt (- 2), VInt 7]\<rparr>)
     = Inr (Next, vm_init\<lparr>stack := [VInt (- 4)]\<rparr>) \<and>
   exec_instr B_MOD (vm_init\<lparr>stack := [VInt (- 2), VInt 7]\<rparr>)
     = Inr (Next, vm_init\<lparr>stack := [VInt (- 1)]\<rparr>)"
  using div_mod_floored [where vm = vm_init and a = "- 7" and rest = "[]" and b = 2]
        div_mod_floored [where vm = vm_init and a = 7 and rest = "[]" and b = "- 2"]
  by simp

text \<open>
  PRINT pops one value and appends one line, \<^verbatim>\<open>str\<close> of the value: the decimal
  digits for an int.
\<close>

lemma print_pops_one_value:
  "exec_instr B_PRINT (vm\<lparr>stack := v # rest\<rparr>)
     = Inr (Next, vm\<lparr>stack := rest, vm_output := vm_output vm @ [py_str v]\<rparr>)
   \<and> py_str (VInt n) = str_int n"
  by simp

text \<open>
  Claim C2 says that a Bool-typed value is printed as 1 or 0. The well-typed program
  \<^verbatim>\<open>print(true);\<close> prints \<open>True\<close>: the generator puts the Python bool of the literal
  into the ASSIGN, the emitter pushes it, and PRINT applies \<^verbatim>\<open>str\<close> to it.
\<close>

theorem print_true_prints_True:
  "well_typed print_true_program \<and>
   printed (run_unoptimized 30 print_true_program) = Some (Inr [''True'']) \<and>
   printed (run_optimized 30 print_true_program) = Some (Inr [''True''])"
  by code_simp

section \<open>Optimizer: behaviour on concrete programs\<close>

text \<open>
  Claim C1 says that the optimizer does not change what a well-typed program prints. For
  \<^verbatim>\<open>int a = 7; int t0 = a + a; print(t0 + 1);\<close> the bytecode of the unoptimized TAC
  prints 15 and the bytecode of the optimized TAC prints 8: constant folding has recorded
  7 for the temporary \<open>t0\<close> and uses it for the user variable of the same name.
\<close>

theorem optimizer_changes_output:
  "well_typed clash_program \<and>
   printed (run_unoptimized 30 clash_program) = Some (Inr [''15'']) \<and>
   printed (run_optimized 30 clash_program) = Some (Inr [''8''])"
  by code_simp

text \<open>
  Dead-code elimination is a filter: it drops an instruction exactly when its op is
  ASSIGN, its result begins with t, and that result is no operand of any instruction. An
  instruction with another op, or with a result that does not begin with t, is retained.
\<close>

lemma dead_code_elimination_filter:
  "dead_code_elimination l =
     filter (\<lambda>i. \<not> (op i = T_ASSIGN \<and> startswith_t (result i)
                      \<and> (\<forall>r. result i = Some r \<longrightarrow> r \<notin> used_vars l))) l"
  unfolding dead_code_elimination_def
  by (rule filter_cong) (auto simp: dce_keeps_def split: option.splits)

lemma dead_code_elimination_retains:
  "i \<in> set l \<Longrightarrow> op i \<noteq> T_ASSIGN \<or> \<not> startswith_t (result i) \<Longrightarrow>
     i \<in> set (dead_code_elimination l)"
  by (auto simp: dead_code_elimination_def dce_keeps_def)

text \<open>
  Claim C5 says that dead-code elimination keeps every write to a user variable. For
  \<^verbatim>\<open>int total = 5;\<close> the generator emits the write \<open>total = t0\<close>, and dead-code
  elimination removes it: \<open>total\<close> begins with the letter t and is read nowhere.
\<close>

theorem dce_removes_write_to_total:
  "tac_of total_program =
     [TAC T_ASSIGN (OVal (VInt 5)) ONone (Some ''t0''),
      TAC T_ASSIGN (OName ''t0'') ONone (Some ''total'')] \<and>
   dead_code_elimination (tac_of total_program) =
     [TAC T_ASSIGN (OVal (VInt 5)) ONone (Some ''t0'')]"
  by code_simp


text \<open>
  Claim C4 says that constant folding never adds the name of a user variable to its
  constant map. For the well-typed program \<^verbatim>\<open>int a = 7; int t0 = a + a; print(t0 + 1);\<close>
  the map holds 7 for \<open>t0\<close>, which is a variable that the program declares and assigns;
  when the program ends that variable holds 14. The entry comes from the temporary of the
  same name, and the pass has no way to tell the two apart.
\<close>

theorem folding_records_user_variable:
  "well_typed clash_program \<and>
   ''t0'' \<in> set (program_assigned_names clash_program) \<and>
   folding_constants (tac_of clash_program) (Some ''t0'') = Some (VInt 7) \<and>
   map_option (map_sum id (\<lambda>vm. variables vm (Some ''t0''))) (run_unoptimized 30 clash_program)
     = Some (Inr (Some (VInt 14)))"
  by code_simp

text \<open>
  The pass looks at no name: for the one-instruction list \<open>x = 5\<close> it records \<open>x\<close>, whose
  name does not begin with t.
\<close>

lemma folding_tests_no_name:
  "folding_constants [TAC T_ASSIGN (OVal (VInt 5)) ONone (Some ''x'')] (Some ''x'') = Some (VInt 5)
   \<and> \<not> startswith_t (Some ''x'')"
  by code_simp

section \<open>Semantic analyzer: lookups and declarations\<close>

lemma lookup_from_none:
  "i < length scs \<Longrightarrow> \<forall>j\<le>i. (scs ! j) n = None \<Longrightarrow> lookup_from scs n i = Inr None"
  by (induction i) auto

lemma lookup_from_innermost:
  "i < length scs \<Longrightarrow> (scs ! i) n = Some s \<Longrightarrow> lookup_from scs n i = Inr (Some s)"
  by (cases i) auto

lemma lookup_from_total:
  "i < length scs \<Longrightarrow> \<exists>r. lookup_from scs n i = Inr r"
  by (induction i) (auto split: option.splits)

lemma error_unless_table [simp]: "symbol_table (error_unless ok a m) = symbol_table a"
  by (simp add: error_unless_def error_def)

lemma error_unless_errors: "\<exists>es. errors (error_unless ok a m) = errors a @ es"
  by (simp add: error_unless_def error_def)

text \<open>
  Analyzing an expression raises nothing when the current scope index is inside the scope
  list; it leaves the symbol table alone and only appends to the error list.
\<close>

lemma analyze_expr_total:
  assumes "current_scope (symbol_table a) < length (scopes (symbol_table a))"
  shows "\<exists>t a'. analyze_expr a e = Inr (t, a') \<and> symbol_table a' = symbol_table a
           \<and> (\<exists>es. errors a' = errors a @ es)"
  using assms
proof (induction e arbitrary: a)
  case (BinaryOp bop l r)
  from BinaryOp.IH(1)[OF BinaryOp.prems] obtain t1 a1 es1 where
    l: "analyze_expr a l = Inr (t1, a1)" "symbol_table a1 = symbol_table a"
       "errors a1 = errors a @ es1"
    by blast
  from BinaryOp.IH(2)[of a1] BinaryOp.prems l(2) obtain t2 a2 es2 where
    r: "analyze_expr a1 r = Inr (t2, a2)" "symbol_table a2 = symbol_table a1"
       "errors a2 = errors a1 @ es2"
    by auto
  show ?case
    using l r error_unless_errors[of _ a2] by (auto simp: Let_def)
next
  case (UnaryOp uop e)
  from UnaryOp.IH[OF UnaryOp.prems] obtain t1 a1 es1 where
    l: "analyze_expr a e = Inr (t1, a1)" "symbol_table a1 = symbol_table a"
       "errors a1 = errors a @ es1"
    by blast
  show ?case
    using l error_unless_errors[of _ a1] by (cases uop) auto
next
  case (Literal v t)
  show ?case by simp
next
  case (Variable n)
  from lookup_from_total[OF Variable.prems, of n] obtain r where
    "lookup (symbol_table a) n = Inr r" by (auto simp: lookup_def)
  then show ?case by (cases r) (auto simp: error_def)
qed

text \<open>
  Claim C10: when a variable reference names nothing in the current scope or any scope
  below it, the analyzer appends exactly one undeclared-variable error and gives the
  reference the type Int; an enclosing arithmetic expression is then checked with Int and
  adds no error of its own.
\<close>

theorem undeclared_variable_is_int:
  assumes "current_scope (symbol_table a) < length (scopes (symbol_table a))"
      and "\<forall>i\<le>current_scope (symbol_table a). (scopes (symbol_table a) ! i) n = None"
    shows "analyze_expr a (Variable n) = Inr (Some TInt, a\<lparr>errors := errors a @ [Undeclared n]\<rparr>)
         \<and> analyze_expr a (BinaryOp OpAdd (Variable n) (Literal v TInt))
             = Inr (Some TInt, a\<lparr>errors := errors a @ [Undeclared n]\<rparr>)"
  using lookup_from_none[OF assms]
  by (simp add: lookup_def error_def error_unless_def)

theorem undeclared_variable_is_int_witness:
  "analyze_expr analyzer_init (Variable ''y'')
     = Inr (Some TInt, analyzer_init\<lparr>errors := [Undeclared ''y'']\<rparr>)
   \<and> analyze_expr analyzer_init (BinaryOp OpAdd (Variable ''y'') (Literal (VInt 1) TInt))
     = Inr (Some TInt, analyzer_init\<lparr>errors := [Undeclared ''y'']\<rparr>)"
proof -
  have h1: "current_scope (symbol_table analyzer_init) < length (scopes (symbol_table analyzer_init))"
    by (simp add: analyzer_init_def symbol_table_init_def)
  have h2: "\<forall>i\<le>current_scope (symbol_table analyzer_init).
              (scopes (symbol_table analyzer_init) ! i) ''y'' = None"
    by (simp add: analyzer_init_def symbol_table_init_def)
  have e: "errors analyzer_init = []"
    by (simp add: analyzer_init_def)
  show ?thesis
    using undeclared_variable_is_int [OF h1 h2, of "VInt 1"] by (simp only: e append_Nil)
qed

subsection \<open>Statements keep the scope stack balanced\<close>

lemma table_extends_refl: "table_ok st \<Longrightarrow> table_extends st st"
  by (simp add: table_extends_def)

lemma table_extends_trans:
  "table_extends st1 st2 \<Longrightarrow> table_extends st2 st3 \<Longrightarrow> table_extends st1 st3"
  by (auto simp: table_extends_def)

lemma analyze_expr_ok:
  assumes "table_ok (symbol_table a)"
  shows "\<exists>t a'. analyze_expr a e = Inr (t, a') \<and> symbol_table a' = symbol_table a"
  using analyze_expr_total[of a e] assms by (auto simp: table_ok_def)

lemma lookup_ok: "table_ok st \<Longrightarrow> \<exists>r. lookup st n = Inr r"
  using lookup_from_total[of "current_scope st" "scopes st" n]
  by (simp add: lookup_def table_ok_def)

lemma declare_symbol_extends:
  assumes "table_ok st"
  shows "\<exists>ok st' s. declare_symbol st n t = Inr (ok, st') \<and> table_extends st st'
           \<and> (scopes st' ! current_scope st') n = Some s
           \<and> ((scopes st ! current_scope st) n = None \<longrightarrow> name s = n \<and> var_type s = t)"
proof (cases "(scopes st ! current_scope st) n")
  case None
  then show ?thesis
    using assms
    by (auto simp: declare_symbol_def table_extends_def table_ok_def nth_list_update)
next
  case (Some s)
  then show ?thesis
    using assms table_extends_refl[OF assms]
    by (auto simp: declare_symbol_def table_ok_def)
qed

lemma analyze_block_extends:
  assumes ih: "\<And>s a. s \<in> set ss \<Longrightarrow> table_ok (symbol_table a) \<Longrightarrow>
                 \<exists>a'. analyze_stmt a s = Inr a' \<and> table_extends (symbol_table a) (symbol_table a')"
  shows "table_ok (symbol_table a) \<Longrightarrow>
           \<exists>a'. analyze_stmts a ss = Inr a' \<and> table_extends (symbol_table a) (symbol_table a')"
  using ih
proof (induction ss arbitrary: a)
  case Nil
  then show ?case by (simp add: table_extends_refl)
next
  case (Cons s ss)
  from Cons.prems(2)[of s a] Cons.prems(1) obtain a1 where
    a1: "analyze_stmt a s = Inr a1" "table_extends (symbol_table a) (symbol_table a1)" by auto
  then have ok1: "table_ok (symbol_table a1)" by (simp add: table_extends_def)
  from Cons.IH[OF ok1] Cons.prems(2) obtain a2 where
    a2: "analyze_stmts a1 ss = Inr a2" "table_extends (symbol_table a1) (symbol_table a2)" by auto
  show ?case using a1 a2 table_extends_trans by auto
qed

lemma enter_exit_extends:
  assumes ok: "table_ok st" and ex: "table_extends (enter_scope st) st2"
  shows "\<exists>st3. exit_scope st2 = Inr st3 \<and> table_extends st st3"
proof -
  have len2: "length (scopes st2) = Suc (Suc (current_scope st))"
    and cur2: "current_scope st2 = Suc (current_scope st)"
    using ex by (simp_all add: table_extends_def table_ok_def enter_scope_def)
  have ne: "scopes st2 \<noteq> []" using len2 by auto
  define st3 where "st3 = st2\<lparr>scopes := butlast (scopes st2), current_scope := current_scope st2 - 1\<rparr>"
  have e: "exit_scope st2 = Inr st3" using cur2 ne by (simp add: exit_scope_def st3_def)
  have "(scopes st3 ! i) n = Some s" if "i \<le> current_scope st" "(scopes st ! i) n = Some s" for i n s
  proof -
    have "(scopes (enter_scope st) ! i) n = Some s"
      using that ok by (simp add: enter_scope_def nth_append table_ok_def)
    then have "(scopes st2 ! i) n = Some s"
      using ex that(1) by (simp add: table_extends_def enter_scope_def)
    then show ?thesis
      using that(1) len2 by (simp add: st3_def nth_butlast)
  qed
  then have "table_extends st st3"
    using len2 cur2 by (simp add: table_extends_def table_ok_def st3_def)
  with e show ?thesis by blast
qed

lemma analyze_block_scope:
  assumes ih: "\<And>s a. s \<in> set ss \<Longrightarrow> table_ok (symbol_table a) \<Longrightarrow>
                 \<exists>a'. analyze_stmt a s = Inr a' \<and> table_extends (symbol_table a) (symbol_table a')"
      and ok: "table_ok (symbol_table a)"
  shows "\<exists>a'. analyze_block a ss = Inr a' \<and> table_extends (symbol_table a) (symbol_table a')"
proof -
  define a0 where "a0 = a\<lparr>symbol_table := enter_scope (symbol_table a)\<rparr>"
  have ok0: "table_ok (symbol_table a0)"
    using ok by (simp add: a0_def table_ok_def enter_scope_def)
  from analyze_block_extends[OF ih ok0] obtain a1 where
    a1: "analyze_stmts a0 ss = Inr a1" "table_extends (symbol_table a0) (symbol_table a1)" by blast
  have "table_extends (enter_scope (symbol_table a)) (symbol_table a1)"
    using a1(2) by (simp add: a0_def)
  from enter_exit_extends[OF ok this] obtain st3 where
    st3: "exit_scope (symbol_table a1) = Inr st3" "table_extends (symbol_table a) st3" by blast
  show ?thesis using a1(1) st3 by (simp add: a0_def[symmetric])
qed

lemma analyze_stmt_extends:
  "table_ok (symbol_table a) \<Longrightarrow>
     \<exists>a'. analyze_stmt a s = Inr a' \<and> table_extends (symbol_table a) (symbol_table a')"
proof (induction s arbitrary: a)
  case (VarDecl t n init)
  from declare_symbol_extends[OF VarDecl.prems, of n t] obtain ok st' where
    d: "declare_symbol (symbol_table a) n t = Inr (ok, st')" "table_extends (symbol_table a) st'"
    by blast
  define a1 where "a1 = error_unless ok (a\<lparr>symbol_table := st'\<rparr>) (AlreadyDeclared n)"
  have t1: "symbol_table a1 = st'" by (simp add: a1_def)
  show ?case
  proof (cases init)
    case None
    then show ?thesis using d t1 by (simp add: a1_def[symmetric])
  next
    case (Some e)
    have "table_ok (symbol_table a1)" using d(2) t1 by (simp add: table_extends_def)
    from analyze_expr_ok[OF this, of e] obtain vt a2 where
      "analyze_expr a1 e = Inr (vt, a2)" "symbol_table a2 = symbol_table a1" by blast
    then show ?thesis using d t1 Some by (simp add: a1_def[symmetric])
  qed
next
  case (Assignment n e)
  from lookup_ok[OF Assignment.prems, of n] obtain r where r: "lookup (symbol_table a) n = Inr r"
    by blast
  from analyze_expr_ok[OF Assignment.prems, of e] obtain vt a1 where
    e: "analyze_expr a e = Inr (vt, a1)" "symbol_table a1 = symbol_table a" by blast
  show ?case
    using r e table_extends_refl[OF Assignment.prems]
    by (cases r) (simp_all add: error_def)
next
  case (IfStmt c then_block else_block)
  from analyze_expr_ok[OF IfStmt.prems, of c] obtain ct a1 where
    e: "analyze_expr a c = Inr (ct, a1)" "symbol_table a1 = symbol_table a" by blast
  define a1' where "a1' = error_unless (ct = Some TBool) a1 (IfCondition ct)"
  have ok1: "table_ok (symbol_table a1')" using e(2) IfStmt.prems by (simp add: a1'_def)
  from analyze_block_scope[of then_block a1', OF IfStmt.IH(1) ok1] obtain a2 where
    a2: "analyze_block a1' then_block = Inr a2" "table_extends (symbol_table a1') (symbol_table a2)"
    by blast
  have ok2: "table_ok (symbol_table a2)" using a2(2) by (simp add: table_extends_def)
  have x12: "table_extends (symbol_table a) (symbol_table a2)"
    using a2(2) e(2) by (simp add: a1'_def)
  show ?case
  proof (cases else_block)
    case None
    then show ?thesis using e a2 x12 by (simp add: a1'_def[symmetric] del: analyze_block.simps)
  next
    case (Some b)
    show ?thesis
    proof (cases "b = []")
      case True
      then show ?thesis using e a2 x12 Some
        by (simp add: a1'_def[symmetric] del: analyze_block.simps)
    next
      case False
      have ihb: "\<And>s a. s \<in> set b \<Longrightarrow> table_ok (symbol_table a) \<Longrightarrow>
                 \<exists>a'. analyze_stmt a s = Inr a' \<and> table_extends (symbol_table a) (symbol_table a')"
        using IfStmt.IH(2)[of b] Some by simp
      from analyze_block_scope[of b a2, OF ihb ok2] obtain a3 where
        a3: "analyze_block a2 b = Inr a3" "table_extends (symbol_table a2) (symbol_table a3)"
        by blast
      show ?thesis using e a2 a3 Some False table_extends_trans[OF x12 a3(2)]
        by (simp add: a1'_def[symmetric] del: analyze_block.simps)
    qed
  qed
next
  case (WhileStmt c body)
  from analyze_expr_ok[OF WhileStmt.prems, of c] obtain ct a1 where
    e: "analyze_expr a c = Inr (ct, a1)" "symbol_table a1 = symbol_table a" by blast
  define a1' where "a1' = error_unless (ct = Some TBool) a1 (WhileCondition ct)"
  have ok1: "table_ok (symbol_table a1')" using e(2) WhileStmt.prems by (simp add: a1'_def)
  from analyze_block_scope[of body a1', OF WhileStmt.IH ok1] obtain a2 where
    a2: "analyze_block a1' body = Inr a2" "table_extends (symbol_table a1') (symbol_table a2)"
    by blast
  have x12: "table_extends (symbol_table a) (symbol_table a2)"
    using a2(2) e(2) by (simp add: a1'_def)
  show ?case using e a2 x12 by (simp add: a1'_def[symmetric] del: analyze_block.simps)
next
  case (PrintStmt e)
  from analyze_expr_ok[OF PrintStmt.prems, of e] obtain vt a1 where
    e: "analyze_expr a e = Inr (vt, a1)" "symbol_table a1 = symbol_table a" by blast
  show ?case using e table_extends_refl[OF PrintStmt.prems] by simp
qed

lemma analyze_stmts_extends:
  "table_ok (symbol_table a) \<Longrightarrow>
     \<exists>a'. analyze_stmts a ss = Inr a' \<and> table_extends (symbol_table a) (symbol_table a')"
  by (rule analyze_block_extends) (rule analyze_stmt_extends)

lemma analyze_stmts_append:
  "analyze_stmts a xs = Inr a1 \<Longrightarrow> analyze_stmts a (xs @ ys) = analyze_stmts a1 ys"
  by (induction xs arbitrary: a) (auto split: sum.splits)

subsection \<open>Redeclaration\<close>

text \<open>
  A declaration of a name that the current scope already binds: \<^verbatim>\<open>declare\<close> returns
  False, one error is appended, and the table is left as it was.
\<close>

lemma redeclaration_step:
  assumes "current_scope (symbol_table a) < length (scopes (symbol_table a))"
      and "(scopes (symbol_table a) ! current_scope (symbol_table a)) n = Some s"
    shows "\<exists>a' es. analyze_stmt a (VarDecl t n init) = Inr a'
               \<and> errors a' = errors a @ [AlreadyDeclared n] @ es
               \<and> symbol_table a' = symbol_table a
               \<and> lookup (symbol_table a') n = Inr (Some s)"
proof -
  have d: "declare_symbol (symbol_table a) n t = Inr (False, symbol_table a)"
    using assms by (simp add: declare_symbol_def)
  have l: "lookup (symbol_table a) n = Inr (Some s)"
    using lookup_from_innermost[OF assms] by (simp add: lookup_def)
  define a1 where "a1 = error a (AlreadyDeclared n)"
  have a1: "symbol_table a1 = symbol_table a" "errors a1 = errors a @ [AlreadyDeclared n]"
    by (simp_all add: a1_def error_def)
  show ?thesis
  proof (cases init)
    case None
    then show ?thesis using d l a1 by (simp add: error_unless_def a1_def)
  next
    case (Some e)
    from analyze_expr_total[of a1 e] assms(1) a1(1) obtain vt a2 es where
      e: "analyze_expr a1 e = Inr (vt, a2)" "symbol_table a2 = symbol_table a"
         "errors a2 = errors a1 @ es"
      by auto
    obtain es' where
      "errors (error_unless (\<not> vt \<noteq> Some t) a2 (TypeMismatch vt t n)) = errors a2 @ es'"
      using error_unless_errors by blast
    then show ?thesis
      using d l a1 e Some by (simp add: error_unless_def[of False] a1_def[symmetric])
  qed
qed

lemma first_declaration_binds:
  assumes "table_ok (symbol_table a)"
  shows "\<exists>a1 s. analyze_stmt a (VarDecl t n init) = Inr a1 \<and> table_ok (symbol_table a1)
           \<and> (scopes (symbol_table a1) ! current_scope (symbol_table a1)) n = Some s
           \<and> ((scopes (symbol_table a) ! current_scope (symbol_table a)) n = None
                \<longrightarrow> name s = n \<and> var_type s = t)"
proof -
  from declare_symbol_extends[OF assms, of n t] obtain ok st' and s :: Symbol where
    d: "declare_symbol (symbol_table a) n t = Inr (ok, st')" "table_extends (symbol_table a) st'"
       "(scopes st' ! current_scope st') n = Some s"
       "(scopes (symbol_table a) ! current_scope (symbol_table a)) n = None
          \<longrightarrow> name s = n \<and> var_type s = t"
    by auto
  define a1 where "a1 = error_unless ok (a\<lparr>symbol_table := st'\<rparr>) (AlreadyDeclared n)"
  have t1: "symbol_table a1 = st'" by (simp add: a1_def)
  have ok1: "table_ok (symbol_table a1)" using d(2) t1 by (simp add: table_extends_def)
  show ?thesis
  proof (cases init)
    case None
    then show ?thesis using d t1 ok1 by (auto simp: a1_def[symmetric])
  next
    case (Some e)
    from analyze_expr_ok[OF ok1, of e] obtain vt a2 where
      "analyze_expr a1 e = Inr (vt, a2)" "symbol_table a2 = symbol_table a1" by blast
    then show ?thesis using d t1 ok1 Some by (auto simp: a1_def[symmetric])
  qed
qed

text \<open>
  Claim C9: let a statement list declare a name twice, with any statements in between, and
  let its analysis start from a table whose scope list and current index agree. After the
  first declaration the current scope binds the name to a symbol (the declared name and
  type, when that scope did not bind the name before). The statements in between leave that
  binding in place. The second declaration appends the redeclaration error, leaves the
  symbol table as it was, and a lookup of the name afterwards returns that first binding.
\<close>

theorem redeclaration_keeps_first_binding:
  assumes "table_ok (symbol_table a)"
  shows "\<exists>a1 s a2 a3 es.
      analyze_stmt a (VarDecl t1 n init1) = Inr a1 \<and>
      (scopes (symbol_table a1) ! current_scope (symbol_table a1)) n = Some s \<and>
      ((scopes (symbol_table a) ! current_scope (symbol_table a)) n = None
         \<longrightarrow> name s = n \<and> var_type s = t1) \<and>
      analyze_stmts a1 between = Inr a2 \<and>
      analyze_stmt a2 (VarDecl t2 n init2) = Inr a3 \<and>
      analyze_stmts a (VarDecl t1 n init1 # between @ [VarDecl t2 n init2]) = Inr a3 \<and>
      errors a3 = errors a2 @ [AlreadyDeclared n] @ es \<and>
      symbol_table a3 = symbol_table a2 \<and>
      lookup (symbol_table a3) n = Inr (Some s)"
proof -
  from first_declaration_binds[OF assms, of t1 n init1] obtain a1 and s :: Symbol where
    a1: "analyze_stmt a (VarDecl t1 n init1) = Inr a1" "table_ok (symbol_table a1)"
        "(scopes (symbol_table a1) ! current_scope (symbol_table a1)) n = Some s"
        "(scopes (symbol_table a) ! current_scope (symbol_table a)) n = None
           \<longrightarrow> name s = n \<and> var_type s = t1"
    by auto
  from analyze_stmts_extends[OF a1(2), of between] obtain a2 where
    a2: "analyze_stmts a1 between = Inr a2" "table_extends (symbol_table a1) (symbol_table a2)"
    by blast
  have cur: "current_scope (symbol_table a2) < length (scopes (symbol_table a2))"
    using a2(2) by (simp add: table_extends_def table_ok_def)
  have bound: "(scopes (symbol_table a2) ! current_scope (symbol_table a2)) n = Some s"
    using a2(2) a1(3) by (simp add: table_extends_def)
  from redeclaration_step[OF cur bound, of t2 init2] obtain a3 es where
    a3: "analyze_stmt a2 (VarDecl t2 n init2) = Inr a3"
        "errors a3 = errors a2 @ [AlreadyDeclared n] @ es"
        "symbol_table a3 = symbol_table a2"
        "lookup (symbol_table a3) n = Inr (Some s)"
    by auto
  have "analyze_stmts a1 (between @ [VarDecl t2 n init2]) = Inr a3"
    using analyze_stmts_append[OF a2(1), of "[VarDecl t2 n init2]"] a3(1) by simp
  then have all: "analyze_stmts a (VarDecl t1 n init1 # between @ [VarDecl t2 n init2]) = Inr a3"
    using a1(1) by simp
  show ?thesis
    using a1(1,3,4) a2(1) a3 all by auto
qed


theorem redeclaration_keeps_first_binding_witness:
  "\<exists>a3 s. analyze analyzer_init
       (Program [VarDecl TInt ''x'' None, PrintStmt (Variable ''x''),
                 VarDecl TBool ''x'' (Some (Literal (VBool True) TBool))]) = Inr a3 \<and>
     AlreadyDeclared ''x'' \<in> set (errors a3) \<and>
     lookup (symbol_table a3) ''x'' = Inr (Some s) \<and> name s = ''x'' \<and> var_type s = TInt"
proof -
  have h1: "table_ok (symbol_table analyzer_init)"
    by (simp add: table_ok_def analyzer_init_def symbol_table_init_def)
  have h2: "(scopes (symbol_table analyzer_init) ! current_scope (symbol_table analyzer_init)) ''x''
              = None"
    by (simp add: analyzer_init_def symbol_table_init_def)
  from redeclaration_keeps_first_binding [OF h1, of TInt "''x''" None "[PrintStmt (Variable ''x'')]" TBool
              "Some (Literal (VBool True) TBool)"] h2
  obtain a3 :: SemanticAnalyzer and s :: Symbol and a2 :: SemanticAnalyzer and es where
    "analyze_stmts analyzer_init
       (VarDecl TInt ''x'' None # [PrintStmt (Variable ''x'')]
          @ [VarDecl TBool ''x'' (Some (Literal (VBool True) TBool))]) = Inr a3"
    "errors a3 = errors a2 @ [AlreadyDeclared ''x''] @ es"
    "lookup (symbol_table a3) ''x'' = Inr (Some s)" "name s = ''x''" "var_type s = TInt"
    by auto
  then show ?thesis by auto
qed

section \<open>Bytecode emission resolves every jump\<close>

subsection \<open>The generator's code for a statement defines the labels it jumps to\<close>

lemma instructions_emit [simp]: "instructions (emit g o1 a1 a2 r) = instructions g @ [TAC o1 a1 a2 r]"
  by (simp add: emit_def)
lemma instructions_new_temp [simp]: "instructions (snd (new_temp g)) = instructions g"
  by (simp add: new_temp_def)
lemma instructions_new_label [simp]: "instructions (snd (new_label g)) = instructions g"
  by (simp add: new_label_def)

lemma op_TAC [simp]: "op (TAC o1 a1 a2 r) = o1" "arg1 (TAC o1 a1 a2 r) = a1"
  "arg2 (TAC o1 a1 a2 r) = a2" "result (TAC o1 a1 a2 r) = r"
  by (simp_all add: TAC_def)

lemma op_map_straight [simp]:
  "op_map b \<noteq> T_GOTO" "op_map b \<noteq> T_IF_FALSE" "op_map b \<noteq> T_LABEL"
  by (cases b; simp)+
lemma unary_op_map_straight [simp]:
  "unary_op_map u \<noteq> T_GOTO" "unary_op_map u \<noteq> T_IF_FALSE" "unary_op_map u \<noteq> T_LABEL"
  by (cases u; simp)+

lemma straight_append [simp]: "straight (a @ b) = (straight a \<and> straight b)"
  by (auto simp: straight_def)
lemma straight_Nil [simp]: "straight []" by (simp add: straight_def)

lemma generate_expr_code:
  "\<exists>code. instructions (snd (generate_expr g e)) = instructions g @ code \<and> straight code"
proof (induction e arbitrary: g)
  case (BinaryOp bop l r)
  obtain lt g1 where l: "generate_expr g l = (lt, g1)" by force
  obtain rt g2 where r: "generate_expr g1 r = (rt, g2)" by force
  obtain t g3 where t: "new_temp g2 = (t, g3)" by force
  from BinaryOp.IH(1)[of g] l obtain c1 where c1: "instructions g1 = instructions g @ c1" "straight c1"
    by auto
  from BinaryOp.IH(2)[of g1] r obtain c2 where c2: "instructions g2 = instructions g1 @ c2" "straight c2"
    by auto
  have g3: "instructions g3 = instructions g2" using instructions_new_temp[of g2] t by simp
  show ?case using l r t c1 c2 g3 by (auto simp: straight_def)
next
  case (UnaryOp uop e)
  obtain lt g1 where l: "generate_expr g e = (lt, g1)" by force
  obtain t g2 where t: "new_temp g1 = (t, g2)" by force
  from UnaryOp.IH[of g] l obtain c1 where c1: "instructions g1 = instructions g @ c1" "straight c1"
    by auto
  have g2: "instructions g2 = instructions g1" using instructions_new_temp[of g1] t by simp
  show ?case using l t c1 g2 by (simp add: straight_def)
next
  case (Literal v t)
  obtain tmp g1 where t: "new_temp g = (tmp, g1)" by force
  have "instructions g1 = instructions g" using instructions_new_temp[of g] t by simp
  then show ?case using t by (simp add: straight_def)
next
  case (Variable n)
  show ?case by simp
qed

lemma labels_closed_straight: "straight a \<Longrightarrow> labels_closed a"
  by (auto simp: labels_closed_def straight_def)

lemma labels_closed_append: "labels_closed a \<Longrightarrow> labels_closed b \<Longrightarrow> labels_closed (a @ b)"
  unfolding labels_closed_def by (metis UnCI Un_iff set_append)

lemma labels_closed_Nil [simp]: "labels_closed []" by (simp add: labels_closed_def)

lemma labels_closed_if:
  assumes "straight cc" "labels_closed ct" "labels_closed ce"
  shows "labels_closed (cc @ [TAC T_IF_FALSE x ONone (Some l1)] @ ct
           @ [TAC T_GOTO ONone ONone (Some l2), TAC T_LABEL ONone ONone (Some l1)] @ ce
           @ [TAC T_LABEL ONone ONone (Some l2)])"
  using assms unfolding labels_closed_def straight_def
  by (auto; blast)

lemma labels_closed_while:
  assumes "straight cc" "labels_closed cb"
  shows "labels_closed ([TAC T_LABEL ONone ONone (Some l1)] @ cc @ [TAC T_IF_FALSE x ONone (Some l2)] @ cb
           @ [TAC T_GOTO ONone ONone (Some l1), TAC T_LABEL ONone ONone (Some l2)])"
  using assms unfolding labels_closed_def straight_def
  by (auto; blast)

lemma generate_stmts_code:
  assumes "\<And>s g. s \<in> set ss \<Longrightarrow>
             \<exists>code. instructions (generate_stmt g s) = instructions g @ code \<and> labels_closed code"
  shows "\<exists>code. instructions (generate_stmts g ss) = instructions g @ code \<and> labels_closed code"
  using assms
proof (induction ss arbitrary: g)
  case Nil
  show ?case by simp
next
  case (Cons s ss)
  from Cons.prems[of s g] obtain c1 where
    c1: "instructions (generate_stmt g s) = instructions g @ c1" "labels_closed c1" by auto
  from Cons.IH[of "generate_stmt g s"] Cons.prems obtain c2 where
    c2: "instructions (generate_stmts (generate_stmt g s) ss) = instructions (generate_stmt g s) @ c2"
        "labels_closed c2" by auto
  show ?case using c1 c2 labels_closed_append[OF c1(2) c2(2)] by auto
qed

lemma generate_stmt_code:
  "\<exists>code. instructions (generate_stmt g s) = instructions g @ code \<and> labels_closed code"
proof (induction s arbitrary: g)
  case (VarDecl t n init)
  show ?case
  proof (cases init)
    case None
    then show ?thesis by simp
  next
    case (Some e)
    obtain vt g1 where e: "generate_expr g e = (vt, g1)" by force
    from generate_expr_code[of g e] e obtain c where
      c: "instructions g1 = instructions g @ c" "straight c" by auto
    have "labels_closed (c @ [TAC T_ASSIGN (OName vt) ONone (Some n)])"
      using c(2) by (intro labels_closed_straight) (simp add: straight_def)
    then show ?thesis using Some e c by simp
  qed
next
  case (Assignment n e)
  obtain vt g1 where e: "generate_expr g e = (vt, g1)" by force
  from generate_expr_code[of g e] e obtain c where
    c: "instructions g1 = instructions g @ c" "straight c" by auto
  have "labels_closed (c @ [TAC T_ASSIGN (OName vt) ONone (Some n)])"
    using c(2) by (intro labels_closed_straight) (simp add: straight_def)
  then show ?case using e c by simp
next
  case (IfStmt c then_block else_block)
  obtain ct g1 where e: "generate_expr g c = (ct, g1)" by force
  obtain l1 g2 where l1: "new_label g1 = (l1, g2)" by force
  obtain l2 g3 where l2: "new_label g2 = (l2, g3)" by force
  from generate_expr_code[of g c] e obtain cc where
    cc: "instructions g1 = instructions g @ cc" "straight cc" by auto
  have g3: "instructions g3 = instructions g1"
    using instructions_new_label[of g1] instructions_new_label[of g2] l1 l2 by simp
  define g4 where "g4 = emit g3 T_IF_FALSE (OName ct) ONone (Some l1)"
  define g5 where "g5 = generate_stmts g4 then_block"
  define g7 where "g7 = emit (emit g5 T_GOTO ONone ONone (Some l2)) T_LABEL ONone ONone (Some l1)"
  define g8 where "g8 = (case else_block of None \<Rightarrow> g7
                          | Some b \<Rightarrow> (if b = [] then g7 else generate_stmts g7 b))"
  from generate_stmts_code[of then_block g4] IfStmt.IH(1) obtain cth where
    cth: "instructions g5 = instructions g4 @ cth" "labels_closed cth"
    unfolding g5_def by blast
  have "\<exists>cel. instructions g8 = instructions g7 @ cel \<and> labels_closed cel"
  proof (cases else_block)
    case None
    then show ?thesis by (simp add: g8_def)
  next
    case (Some b)
    have "\<And>s g. s \<in> set b \<Longrightarrow>
             \<exists>code. instructions (generate_stmt g s) = instructions g @ code \<and> labels_closed code"
      using IfStmt.IH(2) Some by auto
    from generate_stmts_code[of b g7, OF this] Some show ?thesis
      by (auto simp: g8_def)
  qed
  then obtain cel where cel: "instructions g8 = instructions g7 @ cel" "labels_closed cel" by blast
  have res: "generate_stmt g (IfStmt c then_block else_block)
               = emit g8 T_LABEL ONone ONone (Some l2)"
    using e l1 l2 by (cases else_block; simp add: g4_def g5_def g7_def g8_def Let_def)
  have "instructions (emit g8 T_LABEL ONone ONone (Some l2))
          = instructions g @ (cc @ [TAC T_IF_FALSE (OName ct) ONone (Some l1)] @ cth
           @ [TAC T_GOTO ONone ONone (Some l2), TAC T_LABEL ONone ONone (Some l1)] @ cel
           @ [TAC T_LABEL ONone ONone (Some l2)])"
    using cel cth cc g3 by (simp add: g7_def g4_def)
  then show ?case
    using labels_closed_if[OF cc(2) cth(2) cel(2)] res by metis
next
  case (WhileStmt c body)
  obtain l1 g1 where l1: "new_label g = (l1, g1)" by force
  obtain l2 g2 where l2: "new_label g1 = (l2, g2)" by force
  have g2: "instructions g2 = instructions g"
    using instructions_new_label[of g] instructions_new_label[of g1] l1 l2 by simp
  define g3 where "g3 = emit g2 T_LABEL ONone ONone (Some l1)"
  obtain ct g4 where e: "generate_expr g3 c = (ct, g4)" by force
  from generate_expr_code[of g3 c] e obtain cc where
    cc: "instructions g4 = instructions g3 @ cc" "straight cc" by auto
  define g5 where "g5 = emit g4 T_IF_FALSE (OName ct) ONone (Some l2)"
  define g6 where "g6 = generate_stmts g5 body"
  from generate_stmts_code[of body g5] WhileStmt.IH obtain cb where
    cb: "instructions g6 = instructions g5 @ cb" "labels_closed cb"
    unfolding g6_def by blast
  have res: "generate_stmt g (WhileStmt c body)
               = emit (emit g6 T_GOTO ONone ONone (Some l1)) T_LABEL ONone ONone (Some l2)"
    using e l1 l2 by (simp add: g3_def g5_def g6_def Let_def)
  have "instructions (emit (emit g6 T_GOTO ONone ONone (Some l1)) T_LABEL ONone ONone (Some l2))
          = instructions g @ ([TAC T_LABEL ONone ONone (Some l1)] @ cc
              @ [TAC T_IF_FALSE (OName ct) ONone (Some l2)] @ cb
              @ [TAC T_GOTO ONone ONone (Some l1), TAC T_LABEL ONone ONone (Some l2)])"
    using cb cc g2 by (simp add: g5_def g3_def)
  then show ?case
    using labels_closed_while[OF cc(2) cb(2)] res by metis
next
  case (PrintStmt e)
  obtain vt g1 where e: "generate_expr g e = (vt, g1)" by force
  from generate_expr_code[of g e] e obtain c where
    c: "instructions g1 = instructions g @ c" "straight c" by auto
  have "labels_closed (c @ [TAC T_PRINT (OName vt) ONone None])"
    using c(2) by (intro labels_closed_straight) (simp add: straight_def)
  then show ?case using e c by simp
qed

lemma tac_of_labels_closed: "labels_closed (tac_of p)"
proof (cases p)
  case (Program ss)
  from generate_stmts_code[of ss generator_init] generate_stmt_code
  show ?thesis using Program by (auto simp: tac_of_def generator_init_def)
qed


lemma jump_target_load_operand [simp]: "jump_target (load_operand a) = None"
  by (cases a) auto

lemma generate_instruction_jump:
  "i \<in> set (generate_instruction instr) \<Longrightarrow> jump_target i = Some t \<Longrightarrow>
     t = Lbl (result instr) \<and> (op instr = T_GOTO \<or> op instr = T_IF_FALSE)"
  by (auto simp: generate_instruction_def Let_def split: if_splits)

lemma first_pass_Cons: "first_pass b (instr # rest) = first_pass (first_pass_step b instr) rest"
  by (simp add: first_pass_step_def)

lemma first_pass_length: "length (bytecode b) \<le> length (bytecode (first_pass b tac))"
proof (induction tac arbitrary: b)
  case Nil
  show ?case by simp
next
  case (Cons instr rest)
  have "length (bytecode b) \<le> length (bytecode (first_pass_step b instr))"
    by (simp add: first_pass_step_def)
  then show ?case
    using Cons.IH[of "first_pass_step b instr"] unfolding first_pass_Cons by linarith
qed

lemma first_pass_labels_bound:
  "\<forall>r n. labels b r = Some n \<longrightarrow> n \<le> length (bytecode b) \<Longrightarrow>
   \<forall>r n. labels (first_pass b tac) r = Some n \<longrightarrow> n \<le> length (bytecode (first_pass b tac))"
proof (induction tac arbitrary: b)
  case Nil
  then show ?case by simp
next
  case (Cons instr rest)
  have "\<forall>r n. labels (first_pass_step b instr) r = Some n
          \<longrightarrow> n \<le> length (bytecode (first_pass_step b instr))"
    using Cons.prems by (fastforce simp: first_pass_step_def split: if_splits)
  from Cons.IH[OF this]
  show ?case unfolding first_pass_Cons .
qed

lemma first_pass_labels_mono:
  "labels b r \<noteq> None \<Longrightarrow> labels (first_pass b tac) r \<noteq> None"
proof (induction tac arbitrary: b)
  case Nil
  then show ?case by simp
next
  case (Cons instr rest)
  have "labels (first_pass_step b instr) r \<noteq> None"
    using Cons.prems by (simp add: first_pass_step_def)
  from Cons.IH[OF this] show ?case unfolding first_pass_Cons .
qed

lemma first_pass_labels_defined:
  "j \<in> set tac \<Longrightarrow> op j = T_LABEL \<Longrightarrow> labels (first_pass b tac) (result j) \<noteq> None"
proof (induction tac arbitrary: b)
  case Nil
  then show ?case by simp
next
  case (Cons instr rest)
  show ?case
  proof (cases "j = instr")
    case True
    then have "labels (first_pass_step b instr) (result j) \<noteq> None"
      using Cons.prems(2) by (simp add: first_pass_step_def)
    from first_pass_labels_mono[OF this] show ?thesis unfolding first_pass_Cons .
  next
    case False
    then have "j \<in> set rest" using Cons.prems(1) by simp
    from Cons.IH[OF this Cons.prems(2)] show ?thesis unfolding first_pass_Cons .
  qed
qed

lemma first_pass_jumps:
  "i \<in> set (bytecode (first_pass b tac)) \<Longrightarrow> jump_target i = Some t \<Longrightarrow>
     i \<in> set (bytecode b) \<or>
     (\<exists>instr\<in>set tac. (op instr = T_GOTO \<or> op instr = T_IF_FALSE) \<and> t = Lbl (result instr))"
proof (induction tac arbitrary: b)
  case Nil
  then show ?case by simp
next
  case (Cons instr rest)
  from Cons.IH[of "first_pass_step b instr"] Cons.prems
  have "i \<in> set (bytecode (first_pass_step b instr)) \<or>
        (\<exists>x\<in>set rest. (op x = T_GOTO \<or> op x = T_IF_FALSE) \<and> t = Lbl (result x))"
    unfolding first_pass_Cons .
  then show ?case
  proof
    assume "i \<in> set (bytecode (first_pass_step b instr))"
    then have "i \<in> set (bytecode b) \<or> i \<in> set (generate_instruction instr)"
      by (auto simp: first_pass_step_def split: if_splits)
    then show ?thesis
      using generate_instruction_jump[of i instr t] Cons.prems(2) by auto
  next
    assume "\<exists>x\<in>set rest. (op x = T_GOTO \<or> op x = T_IF_FALSE) \<and> t = Lbl (result x)"
    then show ?thesis by auto
  qed
qed

lemma bytecode_generate_jumps:
  assumes "labels_closed tac"
  shows "list_all (jump_ok (length (bytecode_generate tac))) (bytecode_generate tac)"
proof -
  define b1 where "b1 = first_pass bytecode_generator_init tac"
  have bc: "bytecode_generate tac = map (resolve_instr (labels b1)) (bytecode b1 @ [B_HALT])"
    by (simp add: bytecode_generate_def resolve_labels_def b1_def Let_def)
  have len: "length (bytecode_generate tac) = Suc (length (bytecode b1))"
    by (simp add: bc)
  have bound: "\<And>r n. labels b1 r = Some n \<Longrightarrow> n \<le> length (bytecode b1)"
    using first_pass_labels_bound[of bytecode_generator_init tac]
    by (simp add: b1_def bytecode_generator_init_def)
  have "jump_ok (Suc (length (bytecode b1))) (resolve_instr (labels b1) i)"
    if i: "i \<in> set (bytecode b1 @ [B_HALT])" for i
  proof (cases "jump_target i")
    case None
    then show ?thesis by (cases i) auto
  next
    case (Some t)
    then have "i \<in> set (bytecode b1)" using i by auto
    from first_pass_jumps[OF this[unfolded b1_def] Some]
    obtain instr where instr: "instr \<in> set tac" "op instr = T_GOTO \<or> op instr = T_IF_FALSE"
        "t = Lbl (result instr)"
      by (auto simp: bytecode_generator_init_def)
    from assms instr(1,2) obtain s j where
      s: "result instr = Some s" "j \<in> set tac" "op j = T_LABEL" "result j = Some s"
      unfolding labels_closed_def by blast
    from first_pass_labels_defined[OF s(2,3), of bytecode_generator_init] s(4)
    obtain n where n: "labels b1 (Some s) = Some n" by (auto simp: b1_def)
    from bound[OF n] have "resolved_in (Suc (length (bytecode b1))) (resolve_target (labels b1) t)"
      using instr(3) s(1) n by simp
    then show ?thesis using Some by (cases i) auto
  qed
  then show ?thesis
    unfolding len by (simp add: bc list_all_iff)
qed

section \<open>The shape of generated TAC\<close>

lemma is_temp_name_new_temp: "is_temp_name (Some (fst (new_temp g)))"
  by (auto simp: is_temp_name_def new_temp_def)

lemma is_temp_name_startswith_t: "is_temp_name r \<Longrightarrow> startswith_t r"
  by (auto simp: is_temp_name_def)

lemma all_generated_emit:
  "all_generated U g \<Longrightarrow> generated_form U (TAC o1 a1 a2 r) \<Longrightarrow> all_generated U (emit g o1 a1 a2 r)"
  by (simp add: all_generated_def)

lemma all_generated_new_temp: "all_generated U g \<Longrightarrow> all_generated U (snd (new_temp g))"
  by (simp add: all_generated_def)

lemma all_generated_new_label: "all_generated U g \<Longrightarrow> all_generated U (snd (new_label g))"
  by (simp add: all_generated_def)

lemma op_map_cases:
  "op_map b \<in> {T_ADD, T_SUB, T_MUL, T_DIV, T_MOD, T_LT, T_GT, T_LTE, T_GTE, T_EQ, T_NEQ, T_AND, T_OR}"
  by (cases b) auto

lemma generated_form_binary:
  "is_temp_name r \<Longrightarrow> generated_form U (TAC (op_map b) (OName x) (OName y) r)"
  by (cases b) (auto simp: generated_form_def)

lemma generated_form_unary:
  "is_temp_name r \<Longrightarrow> generated_form U (TAC (unary_op_map u) (OName x) ONone r)"
  by (cases u) (auto simp: generated_form_def)

lemma generated_form_literal:
  "is_temp_name r \<Longrightarrow> generated_form U (TAC T_ASSIGN (OVal v) ONone r)"
  by (auto simp: generated_form_def)

lemma generated_form_assign:
  "n \<in> U \<Longrightarrow> generated_form U (TAC T_ASSIGN (OName x) ONone (Some n))"
  by (auto simp: generated_form_def)

lemma generated_form_control [simp]:
  "generated_form U (TAC T_IF_FALSE a ONone r)"
  "generated_form U (TAC T_GOTO ONone ONone r)"
  "generated_form U (TAC T_LABEL ONone ONone r)"
  "generated_form U (TAC T_PRINT a ONone None)"
  by (auto simp: generated_form_def)

lemma generate_expr_generated:
  "all_generated U g \<Longrightarrow> all_generated U (snd (generate_expr g e))"
proof (induction e arbitrary: g)
  case (BinaryOp bop l r)
  obtain lt g1 where l: "generate_expr g l = (lt, g1)" by force
  obtain rt g2 where r: "generate_expr g1 r = (rt, g2)" by force
  obtain t g3 where t: "new_temp g2 = (t, g3)" by force
  have g1: "all_generated U g1" using BinaryOp.IH(1)[OF BinaryOp.prems] l by simp
  have g2: "all_generated U g2" using BinaryOp.IH(2)[OF g1] r by simp
  have g3: "all_generated U g3" using all_generated_new_temp[OF g2] t by simp
  have tn: "is_temp_name (Some t)" using is_temp_name_new_temp[of g2] t by simp
  show ?case
    using l r t all_generated_emit[OF g3 generated_form_binary[OF tn]] by simp
next
  case (UnaryOp uop e)
  obtain lt g1 where l: "generate_expr g e = (lt, g1)" by force
  obtain t g2 where t: "new_temp g1 = (t, g2)" by force
  have g1: "all_generated U g1" using UnaryOp.IH[OF UnaryOp.prems] l by simp
  have g2: "all_generated U g2" using all_generated_new_temp[OF g1] t by simp
  have tn: "is_temp_name (Some t)" using is_temp_name_new_temp[of g1] t by simp
  show ?case
    using l t all_generated_emit[OF g2 generated_form_unary[OF tn]] by simp
next
  case (Literal v ty)
  obtain t g1 where t: "new_temp g = (t, g1)" by force
  have g1: "all_generated U g1" using all_generated_new_temp[OF Literal.prems] t by simp
  have tn: "is_temp_name (Some t)" using is_temp_name_new_temp[of g] t by simp
  show ?case
    using t all_generated_emit[OF g1 generated_form_literal[OF tn]] by simp
next
  case (Variable n)
  then show ?case by simp
qed

lemma generate_stmts_generated:
  assumes "\<And>s g. s \<in> set ss \<Longrightarrow> all_generated U g \<Longrightarrow> all_generated U (generate_stmt g s)"
      and "all_generated U g"
  shows "all_generated U (generate_stmts g ss)"
  using assms
proof (induction ss arbitrary: g)
  case Nil
  then show ?case by simp
next
  case (Cons s ss)
  have "all_generated U (generate_stmt g s)" using Cons.prems by simp
  from Cons.IH[OF _ this] Cons.prems(1) show ?case by simp
qed

lemma generate_stmt_generated:
  "set (assigned_names s) \<subseteq> U \<Longrightarrow> all_generated U g \<Longrightarrow> all_generated U (generate_stmt g s)"
proof (induction s arbitrary: g)
  case (VarDecl t n init)
  show ?case
  proof (cases init)
    case None
    then show ?thesis using VarDecl.prems by simp
  next
    case (Some e)
    obtain vt g1 where e: "generate_expr g e = (vt, g1)" by force
    have g1: "all_generated U g1" using generate_expr_generated[OF VarDecl.prems(2), of e] e by simp
    have "n \<in> U" using VarDecl.prems(1) Some by simp
    from all_generated_emit[OF g1 generated_form_assign[OF this]]
    show ?thesis using Some e by simp
  qed
next
  case (Assignment n e)
  obtain vt g1 where e: "generate_expr g e = (vt, g1)" by force
  have g1: "all_generated U g1" using generate_expr_generated[OF Assignment.prems(2), of e] e by simp
  have "n \<in> U" using Assignment.prems(1) by simp
  from all_generated_emit[OF g1 generated_form_assign[OF this]]
  show ?case using e by simp
next
  case (IfStmt c then_block else_block)
  obtain ct g1 where e: "generate_expr g c = (ct, g1)" by force
  obtain l1 g2 where l1: "new_label g1 = (l1, g2)" by force
  obtain l2 g3 where l2: "new_label g2 = (l2, g3)" by force
  have g1: "all_generated U g1" using generate_expr_generated[OF IfStmt.prems(2), of c] e by simp
  have g2: "all_generated U g2" using all_generated_new_label[OF g1] l1 by simp
  have g3: "all_generated U g3" using all_generated_new_label[OF g2] l2 by simp
  define g4 where "g4 = emit g3 T_IF_FALSE (OName ct) ONone (Some l1)"
  define g5 where "g5 = generate_stmts g4 then_block"
  define g7 where "g7 = emit (emit g5 T_GOTO ONone ONone (Some l2)) T_LABEL ONone ONone (Some l1)"
  define g8 where "g8 = (case else_block of None \<Rightarrow> g7
                          | Some b \<Rightarrow> (if b = [] then g7 else generate_stmts g7 b))"
  have g4: "all_generated U g4" unfolding g4_def by (rule all_generated_emit[OF g3]) simp
  have th: "\<And>s g. s \<in> set then_block \<Longrightarrow> all_generated U g \<Longrightarrow> all_generated U (generate_stmt g s)"
    using IfStmt.IH(1) IfStmt.prems(1) by auto
  have g5: "all_generated U g5" unfolding g5_def by (rule generate_stmts_generated[OF th g4])
  have g7: "all_generated U g7" unfolding g7_def
    by (intro all_generated_emit g5) simp_all
  have g8: "all_generated U g8"
  proof (cases else_block)
    case None
    then show ?thesis using g7 by (simp add: g8_def)
  next
    case (Some b)
    have el: "\<And>s g. s \<in> set b \<Longrightarrow> all_generated U g \<Longrightarrow> all_generated U (generate_stmt g s)"
    proof -
      fix s g assume s: "s \<in> set b" and g: "all_generated U g"
      have sub: "set (assigned_names s) \<subseteq> U" using IfStmt.prems(1) Some s by auto
      show "all_generated U (generate_stmt g s)"
        by (rule IfStmt.IH(2)[of b s, OF _ s sub g]) (simp add: Some)
    qed
    from generate_stmts_generated[OF el g7] g7 Some show ?thesis by (simp add: g8_def)
  qed
  have res: "generate_stmt g (IfStmt c then_block else_block)
               = emit g8 T_LABEL ONone ONone (Some l2)"
    using e l1 l2 by (cases else_block; simp add: g4_def g5_def g7_def g8_def Let_def)
  show ?case unfolding res by (rule all_generated_emit[OF g8]) simp
next
  case (WhileStmt c body)
  obtain l1 g1 where l1: "new_label g = (l1, g1)" by force
  obtain l2 g2 where l2: "new_label g1 = (l2, g2)" by force
  have g1: "all_generated U g1" using all_generated_new_label[OF WhileStmt.prems(2)] l1 by simp
  have g2: "all_generated U g2" using all_generated_new_label[OF g1] l2 by simp
  define g3 where "g3 = emit g2 T_LABEL ONone ONone (Some l1)"
  have g3: "all_generated U g3" unfolding g3_def by (rule all_generated_emit[OF g2]) simp
  obtain ct g4 where e: "generate_expr g3 c = (ct, g4)" by force
  have g4: "all_generated U g4" using generate_expr_generated[OF g3, of c] e by simp
  define g5 where "g5 = emit g4 T_IF_FALSE (OName ct) ONone (Some l2)"
  have g5: "all_generated U g5" unfolding g5_def by (rule all_generated_emit[OF g4]) simp
  define g6 where "g6 = generate_stmts g5 body"
  have bd: "\<And>s g. s \<in> set body \<Longrightarrow> all_generated U g \<Longrightarrow> all_generated U (generate_stmt g s)"
    using WhileStmt.IH WhileStmt.prems(1) by auto
  have g6: "all_generated U g6" unfolding g6_def by (rule generate_stmts_generated[OF bd g5])
  have res: "generate_stmt g (WhileStmt c body)
               = emit (emit g6 T_GOTO ONone ONone (Some l1)) T_LABEL ONone ONone (Some l2)"
    using e l1 l2 by (simp add: g3_def g5_def g6_def Let_def)
  show ?case unfolding res by (intro all_generated_emit g6) simp_all
next
  case (PrintStmt e)
  obtain vt g1 where e: "generate_expr g e = (vt, g1)" by force
  have g1: "all_generated U g1" using generate_expr_generated[OF PrintStmt.prems(2), of e] e by simp
  from all_generated_emit[OF g1, of T_PRINT "OName vt" ONone None]
  show ?case using e by simp
qed

lemma tac_of_generated:
  "\<forall>i\<in>set (tac_of p). generated_form (set (program_assigned_names p)) i"
proof (cases p)
  case (Program ss)
  have init: "all_generated (set (program_assigned_names p)) generator_init"
    by (simp add: all_generated_def generator_init_def)
  have "\<And>s g. s \<in> set ss \<Longrightarrow> all_generated (set (program_assigned_names p)) g
          \<Longrightarrow> all_generated (set (program_assigned_names p)) (generate_stmt g s)"
    by (rule generate_stmt_generated) (auto simp: Program)
  from generate_stmts_generated[OF this init]
  show ?thesis by (simp add: tac_of_def Program all_generated_def)
qed

section \<open>Constant folding: what the dictionary records\<close>


lemma fold_step_assign_imm:
  "op i = T_ASSIGN \<Longrightarrow> arg1 i = OVal v \<Longrightarrow> fold_step c i = (i, c(result i \<mapsto> v))"
  by (simp add: fold_step_def)

lemma fold_step_other:
  "\<not> is_arith (op i) \<Longrightarrow> \<not> (op i = T_ASSIGN \<and> is_imm (arg1 i)) \<Longrightarrow> fold_step c i = (i, c)"
  by (cases "op i"; cases "arg1 i"; simp add: fold_step_def)

lemma fold_step_arith_fold:
  "is_arith (op i) \<Longrightarrow> const_get c (arg1 i) = OVal v1 \<Longrightarrow> const_get c (arg2 i) = OVal v2 \<Longrightarrow>
   fold_step c i = (TAC T_ASSIGN (OVal (fold_value (op i) v1 v2)) ONone (result i),
                    c(result i \<mapsto> fold_value (op i) v1 v2))"
  by (cases "op i"; cases "arg1 i"; simp add: fold_step_def is_arith_def Let_def)

lemma fold_step_arith_keep:
  "is_arith (op i) \<Longrightarrow> \<not> (is_imm (const_get c (arg1 i)) \<and> is_imm (const_get c (arg2 i))) \<Longrightarrow>
   fold_step c i = (i, c)"
  by (cases "op i"; cases "const_get c (arg1 i)"; cases "const_get c (arg2 i)"; cases "arg1 i";
      simp add: fold_step_def is_arith_def Let_def)

lemma fold_step_cases:
  obtains (assign) v where "op i = T_ASSIGN" "arg1 i = OVal v" "fold_step c i = (i, c(result i \<mapsto> v))"
  | (folded) v1 v2 where "is_arith (op i)" "const_get c (arg1 i) = OVal v1"
      "const_get c (arg2 i) = OVal v2"
      "fold_step c i = (TAC T_ASSIGN (OVal (fold_value (op i) v1 v2)) ONone (result i),
                        c(result i \<mapsto> fold_value (op i) v1 v2))"
  | (kept) "fold_step c i = (i, c)" "\<not> (op i = T_ASSIGN \<and> is_imm (arg1 i))"
      "is_arith (op i) \<longrightarrow> \<not> (is_imm (const_get c (arg1 i)) \<and> is_imm (const_get c (arg2 i)))"
proof (cases "op i = T_ASSIGN \<and> is_imm (arg1 i)")
  case True
  then obtain v where "arg1 i = OVal v" by (cases "arg1 i") auto
  with True show ?thesis using assign fold_step_assign_imm by blast
next
  case False
  show ?thesis
  proof (cases "is_arith (op i)")
    case ar: True
    show ?thesis
    proof (cases "is_imm (const_get c (arg1 i)) \<and> is_imm (const_get c (arg2 i))")
      case True
      then obtain v1 v2 where "const_get c (arg1 i) = OVal v1" "const_get c (arg2 i) = OVal v2"
        by (cases "const_get c (arg1 i)"; cases "const_get c (arg2 i)") auto
      then show ?thesis using folded fold_step_arith_fold ar by blast
    next
      case nf: False
      then show ?thesis using kept fold_step_arith_keep ar False by blast
    qed
  next
    case na: False
    then show ?thesis using kept fold_step_other False by blast
  qed
qed

lemma fold_loop_Cons:
  "fold_loop c (i # rest) =
     (fst (fold_step c i) # fst (fold_loop (snd (fold_step c i)) rest),
      snd (fold_loop (snd (fold_step c i)) rest))"
  by (simp add: split_def Let_def)

declare fold_loop.simps(2) [simp del]

lemma fold_step_keys:
  "snd (fold_step c i) r \<noteq> None \<Longrightarrow>
     c r \<noteq> None \<or> (result i = r \<and> ((op i = T_ASSIGN \<and> is_imm (arg1 i)) \<or> is_arith (op i)))"
  by (cases rule: fold_step_cases[of i c]) (auto split: if_splits)

lemma fold_loop_keys:
  "snd (fold_loop c l) r \<noteq> None \<Longrightarrow>
     c r \<noteq> None \<or>
     (\<exists>i\<in>set l. result i = r \<and> ((op i = T_ASSIGN \<and> is_imm (arg1 i)) \<or> is_arith (op i)))"
proof (induction l arbitrary: c)
  case Nil
  then show ?case by simp
next
  case (Cons i rest)
  from Cons.prems have "snd (fold_loop (snd (fold_step c i)) rest) r \<noteq> None"
    by (simp add: fold_loop_Cons)
  from Cons.IH[OF this] fold_step_keys[of c i r] show ?case by auto
qed

text \<open>
  On the TAC that the generator produces for a program, every key of the constant map is a
  name that \<^verbatim>\<open>new_temp\<close> issues (the letter t followed by a counter value), which
  begins with t. So a user variable is recorded only when it has such a name.
\<close>

lemma folding_keys_are_temp_names:
  "folding_constants (tac_of p) r = Some v \<Longrightarrow> is_temp_name r \<and> startswith_t r"
proof -
  assume "folding_constants (tac_of p) r = Some v"
  then have "snd (fold_loop Map.empty (tac_of p)) r \<noteq> None"
    by (simp add: folding_constants_def)
  from fold_loop_keys[OF this] obtain i where
    i: "i \<in> set (tac_of p)" "result i = r" "(op i = T_ASSIGN \<and> is_imm (arg1 i)) \<or> is_arith (op i)"
    by auto
  from tac_of_generated i(1) have "generated_form (set (program_assigned_names p)) i" by blast
  with i(3) have "is_temp_name (result i)"
    by (cases "arg1 i") (auto simp: generated_form_def is_arith_def)
  then show ?thesis using i(2) is_temp_name_startswith_t by auto
qed


lemma folding_keys_are_temp_names_example:
  "folding_constants (tac_of sum_program) (Some ''t2'') = Some (VInt 3)
   \<and> is_temp_name (Some ''t2'') \<and> startswith_t (Some ''t2'')"
proof -
  have h: "folding_constants (tac_of sum_program) (Some ''t2'') = Some (VInt 3)"
    by code_simp
  show ?thesis using folding_keys_are_temp_names [OF h] h by simp
qed

lemma folding_skips_other_user_variables:
  "\<not> is_temp_name (Some n) \<Longrightarrow> folding_constants (tac_of p) (Some n) = None"
  using folding_keys_are_temp_names[of p "Some n"] by (cases "folding_constants (tac_of p) (Some n)") auto

section \<open>Applying the optimizer twice\<close>

lemma fold_step_idem: "fold_step c (fst (fold_step c i)) = fold_step c i"
proof (cases rule: fold_step_cases[of i c])
  case (assign v)
  then show ?thesis by simp
next
  case (folded v1 v2)
  then show ?thesis by (simp add: fold_step_assign_imm)
next
  case kept
  then show ?thesis by simp
qed

lemma fold_loop_idem: "fst (fold_loop c (fst (fold_loop c l))) = fst (fold_loop c l)"
proof (induction l arbitrary: c)
  case Nil
  show ?case by simp
next
  case (Cons i rest)
  show ?case
    using Cons.IH[of "snd (fold_step c i)"]
    by (simp add: fold_loop_Cons fold_step_idem)
qed

lemma const_get_agree:
  "(\<And>k. var_key a = Some k \<Longrightarrow> c k = c' k) \<Longrightarrow> const_get c a = const_get c' a"
  by (cases a) auto

lemma fold_step_agree:
  assumes ag: "\<forall>k. kept_key U k \<longrightarrow> c k = c' k" and ai: "args_in U i"
  shows "fst (fold_step c' i) = fst (fold_step c i)
       \<and> (\<forall>k. kept_key U k \<longrightarrow> snd (fold_step c i) k = snd (fold_step c' i) k)"
proof -
  have g1: "const_get c (arg1 i) = const_get c' (arg1 i)"
    using ag ai by (intro const_get_agree) (auto simp: args_in_def)
  have g2: "const_get c (arg2 i) = const_get c' (arg2 i)"
    using ag ai by (intro const_get_agree) (auto simp: args_in_def)
  show ?thesis
  proof (cases rule: fold_step_cases[of i c])
    case (assign v)
    then show ?thesis using ag by (simp add: fold_step_assign_imm)
  next
    case (folded v1 v2)
    then show ?thesis using ag g1 g2 fold_step_arith_fold[of i c' v1 v2] by simp
  next
    case kept
    have "fold_step c' i = (i, c')"
    proof (cases "is_arith (op i)")
      case True
      then show ?thesis using kept(3) g1 g2 fold_step_arith_keep[of i c'] by simp
    next
      case False
      then show ?thesis using kept(2) fold_step_other[of i c'] by simp
    qed
    then show ?thesis using kept(1) ag by simp
  qed
qed

lemma fold_step_assign_other_keys:
  "op i = T_ASSIGN \<Longrightarrow> k \<noteq> result i \<Longrightarrow> snd (fold_step c i) k = c k"
  by (cases rule: fold_step_cases[of i c]) (auto simp: is_arith_def)

lemma not_dce_keeps:
  "\<not> dce_keeps U i \<Longrightarrow> op i = T_ASSIGN \<and> \<not> kept_key U (result i)"
  by (auto simp: dce_keeps_def kept_key_def split: if_splits option.splits)

lemma fold_loop_filter_fixed:
  assumes "fst (fold_loop c m) = m"
      and "\<forall>k. kept_key U k \<longrightarrow> c k = c' k"
      and "\<forall>i\<in>set m. args_in U i"
  shows "fst (fold_loop c' (filter (dce_keeps U) m)) = filter (dce_keeps U) m"
  using assms
proof (induction m arbitrary: c c')
  case Nil
  show ?case by simp
next
  case (Cons i rest)
  from Cons.prems(1) have fi: "fst (fold_step c i) = i"
    and fr: "fst (fold_loop (snd (fold_step c i)) rest) = rest"
    by (simp_all add: fold_loop_Cons)
  have ai: "args_in U i" and ar: "\<forall>j\<in>set rest. args_in U j" using Cons.prems(3) by simp_all
  show ?case
  proof (cases "dce_keeps U i")
    case True
    from fold_step_agree[OF Cons.prems(2) ai] fi
    have s1: "fst (fold_step c' i) = i"
      and s2: "\<forall>k. kept_key U k \<longrightarrow> snd (fold_step c i) k = snd (fold_step c' i) k"
      by simp_all
    from Cons.IH[OF fr s2 ar] s1 True show ?thesis by (simp add: fold_loop_Cons)
  next
    case False
    from not_dce_keeps[OF False] have oi: "op i = T_ASSIGN" and nk: "\<not> kept_key U (result i)"
      by simp_all
    have "\<forall>k. kept_key U k \<longrightarrow> snd (fold_step c i) k = c' k"
      using fold_step_assign_other_keys[OF oi, of _ c] nk Cons.prems(2) by metis
    from Cons.IH[OF fr this ar] False show ?thesis by simp
  qed
qed

lemma args_in_used_vars: "i \<in> set m \<Longrightarrow> args_in (used_vars m) i"
proof -
  assume i: "i \<in> set m"
  have "kept_key (used_vars m) k" if "var_key a = Some k" "a = arg1 i \<or> a = arg2 i" for a k
  proof (cases a)
    case ONone
    then show ?thesis using that by (auto simp: kept_key_def)
  next
    case (OVal v)
    then show ?thesis using that by simp
  next
    case (OName s)
    show ?thesis
    proof (cases "s = []")
      case True
      then show ?thesis using that OName by (auto simp: kept_key_def)
    next
      case False
      have "arg1 i = OName s \<or> arg2 i = OName s"
        using that(2) OName by auto
      then have "s \<in> set (used_name (arg1 i) @ used_name (arg2 i))"
        using False by auto
      then have "s \<in> used_vars m"
        using i unfolding used_vars_def by auto
      then show ?thesis using that OName by (auto simp: kept_key_def)
    qed
  qed
  then show ?thesis unfolding args_in_def by blast
qed

lemma folding_after_dce_folding:
  "constant_folding (dead_code_elimination (constant_folding l))
     = dead_code_elimination (constant_folding l)"
proof -
  define m where "m = constant_folding l"
  have fx: "fst (fold_loop Map.empty m) = m"
    unfolding m_def constant_folding_def by (rule fold_loop_idem)
  have "fst (fold_loop Map.empty (filter (dce_keeps (used_vars m)) m))
          = filter (dce_keeps (used_vars m)) m"
    by (rule fold_loop_filter_fixed[OF fx]) (simp_all add: args_in_used_vars)
  then have "constant_folding (dead_code_elimination m) = dead_code_elimination m"
    by (simp add: dead_code_elimination_def constant_folding_def)
  then show ?thesis by (simp only: m_def)
qed

lemma fold_step_stable:
  "no_immediate_operands i \<and> temp_assign_reads_nothing i \<Longrightarrow>
   no_immediate_operands (fst (fold_step c i)) \<and> temp_assign_reads_nothing (fst (fold_step c i))"
  by (cases rule: fold_step_cases[of i c])
     (auto simp: no_immediate_operands_def temp_assign_reads_nothing_def)

lemma fold_loop_stable: "stable_form l \<Longrightarrow> stable_form (fst (fold_loop c l))"
proof (induction l arbitrary: c)
  case Nil
  show ?case by (simp add: stable_form_def)
next
  case (Cons i rest)
  then show ?case
    using fold_step_stable[of i c] by (simp add: fold_loop_Cons stable_form_def)
qed

lemma constant_folding_stable: "stable_form l \<Longrightarrow> stable_form (constant_folding l)"
  by (simp add: constant_folding_def fold_loop_stable)

lemma dce_stable: "stable_form l \<Longrightarrow> stable_form (dead_code_elimination l)"
  by (auto simp: stable_form_def dead_code_elimination_def list_all_iff)

lemma eq_int_is_imm: "eq_int a n \<Longrightarrow> is_imm a"
  by (cases a) auto

lemma simplify_instr_stable: "no_immediate_operands i \<Longrightarrow> simplify_instr i = i"
  by (auto simp: simplify_instr_def no_immediate_operands_def dest: eq_int_is_imm)

lemma simplification_stable: "stable_form l \<Longrightarrow> algebraic_simplification l = l"
  by (auto simp: algebraic_simplification_def stable_form_def list_all_iff simplify_instr_stable
           intro: map_idI)

lemma concat_map_filter_empty:
  "\<forall>i\<in>set l. \<not> P i \<longrightarrow> f i = [] \<Longrightarrow> concat (map f (filter P l)) = concat (map f l)"
  by (induction l) auto

lemma used_vars_dce: "stable_form l \<Longrightarrow> used_vars (dead_code_elimination l) = used_vars l"
proof -
  assume st: "stable_form l"
  have "\<forall>i\<in>set l. \<not> dce_keeps (used_vars l) i \<longrightarrow> used_name (arg1 i) @ used_name (arg2 i) = []"
  proof (intro ballI impI)
    fix i assume i: "i \<in> set l" and nk: "\<not> dce_keeps (used_vars l) i"
    from nk have "op i = T_ASSIGN \<and> startswith_t (result i)"
      by (simp add: dce_keeps_def split: if_splits)
    moreover from st i have "temp_assign_reads_nothing i"
      by (simp add: stable_form_def list_all_iff)
    ultimately show "used_name (arg1 i) @ used_name (arg2 i) = []"
      by (simp add: temp_assign_reads_nothing_def)
  qed
  from concat_map_filter_empty[OF this]
  show ?thesis by (simp add: used_vars_def dead_code_elimination_def)
qed

lemma dce_idem:
  "stable_form l \<Longrightarrow> dead_code_elimination (dead_code_elimination l) = dead_code_elimination l"
  using used_vars_dce[of l] by (simp add: dead_code_elimination_def)

lemma optimize_fixed_point:
  assumes "stable_form l"
  shows "optimize (optimize l) = optimize l"
proof -
  define m where "m = dead_code_elimination (constant_folding l)"
  have st: "stable_form m"
    unfolding m_def by (intro dce_stable constant_folding_stable assms)
  have o1: "optimize l = m"
    by (simp add: optimize_def m_def[symmetric] simplification_stable[OF st])
  have f: "constant_folding m = m"
    unfolding m_def by (rule folding_after_dce_folding)
  have d: "dead_code_elimination m = m"
    unfolding m_def by (rule dce_idem[OF constant_folding_stable[OF assms]])
  show ?thesis
    unfolding o1 by (simp add: optimize_def f d simplification_stable[OF st])
qed




text \<open>
  The generator's TAC has this form when no variable that the program assigns has a name
  beginning with t.
\<close>

lemma generated_form_stable:
  assumes "generated_form U i" and "\<forall>n\<in>U. \<not> startswith_t (Some n)"
  shows "no_immediate_operands i \<and> temp_assign_reads_nothing i"
proof -
  have "no_immediate_operands i"
    using assms(1)
    by (cases "arg1 i"; cases "arg2 i")
       (auto simp: generated_form_def no_immediate_operands_def)
  moreover have "temp_assign_reads_nothing i"
    using assms
    by (cases "arg1 i"; cases "arg2 i")
       (auto simp: generated_form_def temp_assign_reads_nothing_def)
  ultimately show ?thesis by simp
qed

lemma tac_of_stable:
  "\<forall>n\<in>set (program_assigned_names p). \<not> startswith_t (Some n) \<Longrightarrow> stable_form (tac_of p)"
  using tac_of_generated[of p] generated_form_stable
  by (auto simp: stable_form_def list_all_iff)

lemma optimize_idempotent_on_generated:
  "\<forall>n\<in>set (program_assigned_names p). \<not> startswith_t (Some n) \<Longrightarrow>
   optimize (optimize (tac_of p)) = optimize (tac_of p)"
  by (rule optimize_fixed_point[OF tac_of_stable])


section \<open>The optimizer keeps jumps and labels\<close>

lemma labels_closed_control:
  "filter is_control l = filter is_control l' \<Longrightarrow> labels_closed l = labels_closed l'"
proof -
  assume "filter is_control l = filter is_control l'"
  then have "set (filter is_control l) = set (filter is_control l')" by simp
  then have eq: "\<And>i. is_control i \<Longrightarrow> (i \<in> set l) = (i \<in> set l')" by auto
  have c: "\<And>i. op i \<in> {T_GOTO, T_IF_FALSE} \<Longrightarrow> is_control i"
          "\<And>i. op i = T_LABEL \<Longrightarrow> is_control i"
    by (auto simp: is_control_def)
  show ?thesis
    unfolding labels_closed_def using eq c by metis
qed

lemma fold_step_control:
  "filter is_control [fst (fold_step c i)] = filter is_control [i]"
  by (cases rule: fold_step_cases[of i c]) (auto simp: is_control_def is_arith_def)

lemma fold_loop_control: "filter is_control (fst (fold_loop c l)) = filter is_control l"
proof (induction l arbitrary: c)
  case Nil
  show ?case by simp
next
  case (Cons i rest)
  show ?case
    using Cons.IH[of "snd (fold_step c i)"] fold_step_control[of c i]
    by (simp add: fold_loop_Cons split: if_splits)
qed

lemma dce_control: "filter is_control (dead_code_elimination l) = filter is_control l"
proof -
  have "\<And>i. is_control i \<Longrightarrow> dce_keeps (used_vars l) i"
    by (auto simp: is_control_def dce_keeps_def)
  then show ?thesis
    unfolding dead_code_elimination_def filter_filter by (metis (mono_tags, lifting) filter_cong)
qed

lemma simplify_instr_control:
  "filter is_control [simplify_instr i] = filter is_control [i]"
  by (auto simp: simplify_instr_def is_control_def)

lemma simplification_control:
  "filter is_control (algebraic_simplification l) = filter is_control l"
proof (induction l)
  case Nil
  show ?case by (simp add: algebraic_simplification_def)
next
  case (Cons i rest)
  then show ?case
    using simplify_instr_control[of i]
    by (simp add: algebraic_simplification_def split: if_splits)
qed

lemma optimize_labels_closed: "labels_closed l \<Longrightarrow> labels_closed (optimize l)"
proof -
  have "filter is_control (optimize l) = filter is_control l"
    by (simp add: optimize_def simplification_control dce_control constant_folding_def
          fold_loop_control)
  from labels_closed_control[OF this] show "labels_closed l \<Longrightarrow> labels_closed (optimize l)"
    by simp
qed


text \<open>
  Claim C7: in the bytecode emitted from the generator's TAC of a program (well-typed or
  not), the argument of every JUMP and JUMP\_IF\_FALSE is an integer address \<open>a\<close> with
  \<open>0 \<le> a < len(bytecode)\<close>; none is still a label name. The same holds when the
  optimizer runs between the generator and the emitter, as in \<^verbatim>\<open>compile_and_run\<close>.
\<close>

theorem emitted_jumps_are_resolved:
  "list_all (jump_ok (length (bytecode_generate (tac_of p)))) (bytecode_generate (tac_of p)) \<and>
   list_all (jump_ok (length (bytecode_generate (optimize (tac_of p)))))
     (bytecode_generate (optimize (tac_of p)))"
  using bytecode_generate_jumps[OF tac_of_labels_closed]
        bytecode_generate_jumps[OF optimize_labels_closed[OF tac_of_labels_closed]]
  by simp

theorem emitted_jumps_are_resolved_witness:
  "bytecode_generate (tac_of if_program) =
     [B_PUSH (VBool True), B_STORE (Some ''t0''), B_LOAD (OName ''t0''),
      B_JUMP_IF_FALSE (Addr 5), B_JUMP (Addr 5), B_HALT] \<and>
   list_all (jump_ok (length (bytecode_generate (tac_of if_program))))
     (bytecode_generate (tac_of if_program))"
proof -
  have "bytecode_generate (tac_of if_program) =
     [B_PUSH (VBool True), B_STORE (Some ''t0''), B_LOAD (OName ''t0''),
      B_JUMP_IF_FALSE (Addr 5), B_JUMP (Addr 5), B_HALT]"
    by code_simp
  then show ?thesis using emitted_jumps_are_resolved [of if_program] by blast
qed

end
